theory Spec2Isabelle
  imports Main "HOL-Library.Sublist"
begin

section \<open>JavaScript strings\<close>

text \<open>
  A JavaScript string is modelled as a HOL \<open>string\<close>; a character stands for one code unit
  in the range 0..255 (ASCII and Latin-1).  The line feed is \<open>CHR 0x0A\<close>.
\<close>

definition NL :: char where
  "NL = CHR 0x0A"

text \<open>
  \<open>String.prototype.trim\<close> strips white space and line terminators from both ends.
  In the modelled range these are TAB, LF, VT, FF, CR, SPACE and NBSP.
\<close>

definition is_ws :: "char \<Rightarrow> bool" where
  "is_ws c = (c = CHR 0x09 \<or> c = CHR 0x0A \<or> c = CHR 0x0B \<or> c = CHR 0x0C \<or>
              c = CHR 0x0D \<or> c = CHR 0x20 \<or> c = CHR 0xA0)"

definition trim :: "string \<Rightarrow> string" where
  "trim s = rev (dropWhile is_ws (rev (dropWhile is_ws s)))"

definition is_upper :: "char \<Rightarrow> bool" where
  "is_upper c = (65 \<le> (of_char c :: nat) \<and> (of_char c :: nat) \<le> 90)"

definition is_lower :: "char \<Rightarrow> bool" where
  "is_lower c = (97 \<le> (of_char c :: nat) \<and> (of_char c :: nat) \<le> 122)"

definition is_digit :: "char \<Rightarrow> bool" where
  "is_digit c = (48 \<le> (of_char c :: nat) \<and> (of_char c :: nat) \<le> 57)"

text \<open>
  \<open>toLowerCase\<close> on one code unit: \<open>A\<close>..\<open>Z\<close> and the Latin-1 capitals
  (0xC0..0xDE without the multiplication sign 0xD7) move up by 32.
\<close>

definition lower_char :: "char \<Rightarrow> char" where
  "lower_char c =
     (let n = (of_char c :: nat) in
      if (65 \<le> n \<and> n \<le> 90) \<or> (192 \<le> n \<and> n \<le> 222 \<and> n \<noteq> 215)
      then char_of (n + 32) else c)"

definition toLowerCase :: "string \<Rightarrow> string" where
  "toLowerCase s = map lower_char s"

text \<open>\<open>s.includes(sub)\<close>: \<open>sub\<close> occurs in \<open>s\<close> as a contiguous run.\<close>

definition str_includes :: "string \<Rightarrow> string \<Rightarrow> bool" where
  "str_includes s sub = sublist sub s"

text \<open>\<open>s.split('\n')\<close>; the empty string gives one empty line.\<close>

fun split_lines :: "string \<Rightarrow> string list" where
  "split_lines [] = [[]]"
| "split_lines (c # cs) =
     (if c = NL then [] # split_lines cs
      else (case split_lines cs of
              [] \<Rightarrow> [[c]]
            | l # ls \<Rightarrow> (c # l) # ls))"

text \<open>\<open>lines.join('\n')\<close>.\<close>

fun join_lines :: "string list \<Rightarrow> string" where
  "join_lines [] = []"
| "join_lines [l] = l"
| "join_lines (l # l' # ls) = l @ NL # join_lines (l' # ls)"

section \<open>Content cleaner\<close>

text \<open>
  The three tests of the look-ahead in \<open>cleanAnswerForTwitter\<close>.

  \<open>/^[A-Z][a-z]+.*\d{4}\.\d{2}\.\d{2}/\<close>: a capital, at least one small letter, any run of
  characters that are not line terminators, then a date \<open>dddd.dd.dd\<close>.  One small letter
  followed by \<open>.*\<close> matches exactly what \<open>[a-z]+.*\<close> matches, since small letters are
  themselves matched by the dot.
\<close>

definition is_line_terminator :: "char \<Rightarrow> bool" where
  "is_line_terminator c = (c = CHR 0x0A \<or> c = CHR 0x0D)"

fun date_here :: "string \<Rightarrow> bool" where
  "date_here (a # b # c # d # p # e # f # q # g # h # _) =
     (is_digit a \<and> is_digit b \<and> is_digit c \<and> is_digit d \<and> p = CHR ''.'' \<and>
      is_digit e \<and> is_digit f \<and> q = CHR ''.'' \<and> is_digit g \<and> is_digit h)"
| "date_here _ = False"

fun dots_then_date :: "string \<Rightarrow> bool" where
  "dots_then_date [] = False"
| "dots_then_date (c # cs) =
     (date_here (c # cs) \<or> (\<not> is_line_terminator c \<and> dots_then_date cs))"

fun looks_like_citation :: "string \<Rightarrow> bool" where
  "looks_like_citation (u # l # rest) = (is_upper u \<and> is_lower l \<and> dots_then_date rest)"
| "looks_like_citation _ = False"

text \<open>
  \<open>/^[A-Z\s]+ \d/\<close>: one or more capitals or white-space characters, then a space, then a
  digit.
\<close>

fun space_digit_here :: "string \<Rightarrow> bool" where
  "space_digit_here (s # d # _) = (s = CHR 0x20 \<and> is_digit d)"
| "space_digit_here _ = False"

fun looks_like_heading :: "string \<Rightarrow> bool" where
  "looks_like_heading [] = False"
| "looks_like_heading (c # cs) =
     ((is_upper c \<or> is_ws c) \<and> (space_digit_here cs \<or> looks_like_heading cs))"

definition marker :: string where
  "marker = ''science papers:''"

text \<open>
  The look-ahead of the loop at a blank line: \<open>rest\<close> holds the lines after the current
  one.  It answers whether skip mode stays on.
\<close>

definition still_in_papers :: "string list \<Rightarrow> bool" where
  "still_in_papers rest =
     (case dropWhile (\<lambda>l. trim l = []) rest of
        [] \<Rightarrow> True
      | nxt # _ \<Rightarrow>
          (let nextLine = trim nxt in
           \<not> (\<not> looks_like_citation nextLine \<and>
              \<not> str_includes nextLine ''10.'' \<and>
              \<not> looks_like_heading nextLine)))"

text \<open>
  The \<open>for\<close> loop of \<open>cleanAnswerForTwitter\<close>: the first argument is \<open>skipMode\<close>, the
  second the lines from index \<open>i\<close> on; the result lists the lines pushed to
  \<open>cleanedLines\<close> from there on.
\<close>

fun clean_loop :: "bool \<Rightarrow> string list \<Rightarrow> string list" where
  "clean_loop skipMode [] = []"
| "clean_loop skipMode (line # rest) =
     (let trimmed = trim line in
      if str_includes (toLowerCase trimmed) marker then clean_loop True rest
      else if skipMode then
        (let skipMode' = (if trimmed = [] then still_in_papers rest else True) in
         if skipMode' then clean_loop True rest
         else line # clean_loop False rest)
      else line # clean_loop False rest)"

definition cleanAnswerForTwitter :: "string \<Rightarrow> string" where
  "cleanAnswerForTwitter answer = trim (join_lines (clean_loop False (split_lines answer)))"


section \<open>Bot state and the outside world\<close>

text \<open>
  A field that holds \<open>null\<close> or a number.  \<open>parseInt\<close> of a header that is not a number
  gives \<open>NaN\<close>; \<open>NaN\<close> and \<open>null\<close> are both falsy, and \<open>checkRateLimit\<close> compares a
  field only after it has found it truthy, so \<open>None\<close> stands for either.
\<close>

type_synonym jsnum = "int option"

definition truthy :: "jsnum \<Rightarrow> bool" where
  "truthy v = (case v of None \<Rightarrow> False | Some n \<Rightarrow> n \<noteq> 0)"

record rate_limit =
  remaining :: jsnum
  resetTime :: jsnum
  limit :: jsnum
  lastCheck :: jsnum

text \<open>
  Response headers: each rate-limit header is absent (\<open>None\<close>) or present with the value
  \<open>parseInt\<close> reads from it.
\<close>

record headers =
  x_rate_limit_remaining :: "jsnum option"
  x_rate_limit_reset :: "jsnum option"
  x_rate_limit_limit :: "jsnum option"

record stats =
  totalProcessed :: int
  successfulPosts :: int
  failedPosts :: int
  skippedRecords :: int
  errors :: int
  rateLimitHits :: int
  totalWaitTime :: int

record bot_config =
  minDelayBetweenPosts :: int
  maxDelayBetweenPosts :: int
  rateLimitBackoffMultiplier :: int
  maxRetries :: nat
  retryDelayMs :: int

definition config :: bot_config where
  "config = \<lparr> minDelayBetweenPosts = 2000, maxDelayBetweenPosts = 30000,
              rateLimitBackoffMultiplier = 2, maxRetries = 3, retryDelayMs = 5000 \<rparr>"

text \<open>
  A record id as the database driver hands it to the program: a JavaScript number when the
  \<open>id\<close> column of the source table is an integer, a string otherwise.  A \<open>Set\<close> compares
  its members by SameValueZero, under which a number never equals a string; that is
  equality of this datatype.
\<close>

datatype js_id = IdNum int | IdStr string

text \<open>A row of \<open>twitter_answers\<close> (the source table); text columns may be \<open>NULL\<close>.\<close>

record answer_row =
  id_fld :: js_id
  answer :: "string option"
  tweet_id :: "string option"
  poi_transaction :: "string option"
  created_at :: int

text \<open>A row of \<open>processed_records\<close> (the ledger), keyed by \<open>record_id\<close>.\<close>

record ledger_row =
  record_id :: string
  processed_at :: int
  posted_tweet_id :: "string option"
  reply_to_tweet_id :: "string option"
  status :: string
  content_length :: "int option"
  row_poi_transaction :: "string option"
  row_created_at :: int
  updated_at :: int

text \<open>
  The bot object together with the world it acts on.  The first five fields are fields of
  \<open>TwitterBot\<close>.  \<open>clock\<close> is what \<open>Date.now()\<close> reads (milliseconds); the two tables are
  the databases; \<open>logs\<close> lists the level and message of every \<open>this.log\<close> call (the data
  object is not recorded); \<open>timers\<close> lists every \<open>setTimeout\<close> wait with the place that
  set it; \<open>tweets_sent\<close> lists the text and the replied-to id of every call of
  \<open>rwClient.v2.tweet\<close>; the three counters number the calls made to the databases and to
  the two Twitter endpoints.  Connection handles are not modelled.
\<close>

record bot =
  lastCheckTime :: int
  processedIds :: "js_id set"
  isRunning :: bool
  stats :: stats
  rateLimits :: "string \<Rightarrow> rate_limit option"
  clock :: int
  twitter_answers :: "answer_row list"
  processed_records :: "ledger_row list"
  logs :: "(string \<times> string) list"
  timers :: "(string \<times> int) list"
  tweets_sent :: "(string \<times> string option) list"
  db_calls :: nat
  lookup_calls :: nat
  tweet_calls :: nat

text \<open>An error object thrown by the Twitter client (or by the runtime).\<close>

record api_error =
  err_code :: "int option"
  err_title :: "string option"
  err_detail :: "string option"
  err_message :: string
  err_headers :: "headers option"

datatype lookup_result = LookupOk "headers option" | LookupErr api_error

datatype tweet_result = TweetOk string "headers option" | TweetErr api_error

text \<open>
  What the outside world answers: whether the \<open>n\<close>-th query attempt (connection and query
  together) succeeds, and the \<open>n\<close>-th response of the lookup and of the tweet endpoint.
\<close>

record env =
  query_ok :: "nat \<Rightarrow> bool"
  lookup_response :: "nat \<Rightarrow> lookup_result"
  tweet_response :: "nat \<Rightarrow> tweet_result"

definition log_msg :: "string \<Rightarrow> string \<Rightarrow> bot \<Rightarrow> bot" where
  "log_msg level message s = s\<lparr>logs := logs s @ [(level, message)]\<rparr>"

text \<open>\<open>await new Promise(resolve => setTimeout(resolve, ms))\<close>: the clock moves on by \<open>ms\<close>.\<close>

definition sleep :: "string \<Rightarrow> int \<Rightarrow> bot \<Rightarrow> bot" where
  "sleep site ms s = s\<lparr>clock := clock s + ms, timers := timers s @ [(site, ms)]\<rparr>"

definition upd_stats :: "(stats \<Rightarrow> stats) \<Rightarrow> bot \<Rightarrow> bot" where
  "upd_stats f s = s\<lparr>stats := f (stats s)\<rparr>"

text \<open>Decimal digits of a number, for the template literals in log messages.\<close>

function show_nat :: "nat \<Rightarrow> string" where
  "show_nat n = (if n < 10 then [char_of (48 + n)]
                 else show_nat (n div 10) @ [char_of (48 + n mod 10)])"
  by pat_completeness auto
termination
  by (relation "measure id") auto

declare show_nat.simps [simp del]

definition show_int :: "int \<Rightarrow> string" where
  "show_int i = (if i < 0 then CHR ''-'' # show_nat (nat (- i)) else show_nat (nat i))"

text \<open>
  The text the driver sends for an id passed as a query parameter, which is what the
  \<open>VARCHAR\<close> column \<open>record_id\<close> stores: a number is written in decimal.
\<close>

definition id_text :: "js_id \<Rightarrow> string" where
  "id_text v = (case v of IdNum n \<Rightarrow> show_int n | IdStr x \<Rightarrow> x)"

section \<open>Rate-limit tracker\<close>

definition updateRateLimitInfo :: "string \<Rightarrow> headers option \<Rightarrow> bot \<Rightarrow> bot" where
  "updateRateLimitInfo endpoint hdrs s =
     (case hdrs of
        None \<Rightarrow> s
      | Some h \<Rightarrow>
          (case rateLimits s endpoint of
             None \<Rightarrow> s
           | Some rl \<Rightarrow>
               (let rl1 = (case x_rate_limit_remaining h of
                             None \<Rightarrow> rl | Some v \<Rightarrow> rl\<lparr>remaining := v\<rparr>);
                    rl2 = (case x_rate_limit_reset h of
                             None \<Rightarrow> rl1
                           | Some v \<Rightarrow> rl1\<lparr>resetTime := map_option (\<lambda>n. n * 1000) v\<rparr>);
                    rl3 = (case x_rate_limit_limit h of
                             None \<Rightarrow> rl2 | Some v \<Rightarrow> rl2\<lparr>limit := v\<rparr>);
                    rl4 = rl3\<lparr>lastCheck := Some (clock s)\<rparr>
                in log_msg ''DEBUG'' (''Updated rate limit info for '' @ endpoint)
                     (s\<lparr>rateLimits := (rateLimits s)(endpoint := Some rl4)\<rparr>))))"

record rate_check =
  canProceed :: bool
  waitTime :: int

text \<open>
  \<open>checkRateLimit\<close>.  The first test is \<open>!rateLimit || !rateLimit.remaining ||
  !rateLimit.resetTime\<close>; past it both fields are non-zero numbers.
\<close>

definition checkRateLimit :: "string \<Rightarrow> bot \<Rightarrow> rate_check \<times> bot" where
  "checkRateLimit endpoint s =
     (case rateLimits s endpoint of
        None \<Rightarrow> (\<lparr>canProceed = True, waitTime = 0\<rparr>, s)
      | Some rl \<Rightarrow>
          (if \<not> truthy (remaining rl) \<or> \<not> truthy (resetTime rl)
           then (\<lparr>canProceed = True, waitTime = 0\<rparr>, s)
           else
             (case (remaining rl, resetTime rl) of
                (Some r, Some t) \<Rightarrow>
                  (let now = clock s in
                   if now \<ge> t
                   then (\<lparr>canProceed = True, waitTime = 0\<rparr>,
                         s\<lparr>rateLimits := (rateLimits s)(endpoint := Some (rl\<lparr>remaining := limit rl\<rparr>))\<rparr>)
                   else if r > 0 then (\<lparr>canProceed = True, waitTime = 0\<rparr>, s)
                   else (\<lparr>canProceed = False, waitTime = t - now\<rparr>,
                         log_msg ''WARN'' (''Rate limit hit for '' @ endpoint) s))
              | _ \<Rightarrow> (\<lparr>canProceed = True, waitTime = 0\<rparr>, s))))"

text \<open>
  The chunked wait of \<open>waitForRateLimit\<close>.  \<open>isRunning\<close> is read from the state; a
  shutdown signal arriving during the wait is not modelled.
\<close>

function wait_loop :: "int \<Rightarrow> bot \<Rightarrow> bot" where
  "wait_loop remainingWait s =
     (if remainingWait > 0 \<and> isRunning s then
        (let currentWait = min 5000 remainingWait;
             s1 = sleep ''rate-limit-wait'' currentWait s;
             remainingWait' = remainingWait - currentWait;
             s2 = (if remainingWait' > 0
                   then log_msg ''DEBUG'' ''Still waiting for rate limit reset'' s1 else s1)
         in wait_loop remainingWait' s2)
      else s)"
  by pat_completeness auto
termination
  by (relation "measure (\<lambda>(r, s). nat r)") (auto simp: Let_def)

declare wait_loop.simps [simp del]

definition waitForRateLimit :: "int \<Rightarrow> bot \<Rightarrow> bot" where
  "waitForRateLimit wt s =
     (if wt \<le> 0 then s
      else
        (let s1 = log_msg ''INFO'' ''Waiting for rate limit reset'' s;
             s2 = upd_stats (\<lambda>st. st\<lparr>rateLimitHits := rateLimitHits st + 1,
                                      totalWaitTime := totalWaitTime st + wt\<rparr>) s1;
             s3 = wait_loop wt s2
         in if isRunning s3
            then log_msg ''INFO'' ''Rate limit wait completed, resuming operations'' s3
            else s3))"

definition rateLimitedDelay :: "bot \<Rightarrow> bot" where
  "rateLimitedDelay s =
     (let delay = minDelayBetweenPosts config in
      if delay > 0
      then sleep ''post-delay'' delay (log_msg ''DEBUG'' ''Applying rate limit delay'' s)
      else s)"


section \<open>Construction\<close>

text \<open>The constructor, run at time \<open>now\<close> in a world holding the two tables.\<close>

definition empty_rate_limit :: rate_limit where
  "empty_rate_limit = \<lparr> remaining = None, resetTime = None, limit = None, lastCheck = None \<rparr>"

definition new_bot :: "int \<Rightarrow> answer_row list \<Rightarrow> ledger_row list \<Rightarrow> bot" where
  "new_bot now answers ledger =
     \<lparr> lastCheckTime = now - 12 * 60 * 60 * 1000,
       processedIds = {},
       isRunning = False,
       stats = \<lparr> totalProcessed = 0, successfulPosts = 0, failedPosts = 0, skippedRecords = 0,
                 errors = 0, rateLimitHits = 0, totalWaitTime = 0 \<rparr>,
       rateLimits = (\<lambda>e. if e = ''tweets'' \<or> e = ''lookup'' then Some empty_rate_limit else None),
       clock = now,
       twitter_answers = answers,
       processed_records = ledger,
       logs = [(''INFO'', ''Bot initialized'')],
       timers = [],
       tweets_sent = [],
       db_calls = 0,
       lookup_calls = 0,
       tweet_calls = 0 \<rparr>"

section \<open>Database access\<close>

text \<open>
  \<open>executeQuery\<close>: up to three attempts; a failed attempt is logged, and before the next
  one the code waits \<open>1000 * attempts\<close> ms.  The query is given by its effect \<open>q\<close> on the
  world, applied when an attempt succeeds.  \<open>None\<close> stands for the error thrown after the
  third failure.
\<close>

definition maxAttempts :: nat where
  "maxAttempts = 3"

function executeQuery_loop ::
  "env \<Rightarrow> string \<Rightarrow> (bot \<Rightarrow> 'r \<times> bot) \<Rightarrow> nat \<Rightarrow> bot \<Rightarrow> 'r option \<times> bot" where
  "executeQuery_loop e name q attempts s =
     (if attempts < maxAttempts then
        (let ok = query_ok e (db_calls s);
             s1 = s\<lparr>db_calls := db_calls s + 1\<rparr>
         in if ok then (case q s1 of (r, s2) \<Rightarrow> (Some r, s2))
            else
              (let attempts' = attempts + 1;
                   s2 = log_msg ''WARN''
                          (''Query attempt '' @ show_nat attempts' @ '' failed ('' @ name @ '')'') s1
               in if attempts' \<ge> maxAttempts then (None, s2)
                  else executeQuery_loop e name q attempts'
                         (sleep ''query-retry'' (1000 * int attempts') s2)))
      else (None, s))"
  by pat_completeness auto
termination
  by (relation "measure (\<lambda>(e, name, q, attempts, s). maxAttempts - attempts)")
     (auto simp: maxAttempts_def)

declare executeQuery_loop.simps [simp del]

definition executeQuery :: "env \<Rightarrow> string \<Rightarrow> (bot \<Rightarrow> 'r \<times> bot) \<Rightarrow> bot \<Rightarrow> 'r option \<times> bot" where
  "executeQuery e name q s = executeQuery_loop e name q 0 s"

section \<open>Ledger\<close>

text \<open>
  \<open>SELECT record_id FROM processed_records\<close>; the driver returns the \<open>VARCHAR\<close> values as
  strings, and \<open>loadProcessedIds\<close> puts these strings into the set.
\<close>

definition select_record_ids :: "bot \<Rightarrow> string list \<times> bot" where
  "select_record_ids s = (map record_id (processed_records s), s)"

definition loadProcessedIds :: "env \<Rightarrow> bot \<Rightarrow> bot" where
  "loadProcessedIds e s =
     (case executeQuery e ''Railway'' select_record_ids s of
        (Some ids, s1) \<Rightarrow>
          log_msg ''INFO''
            (''Loaded '' @ show_nat (length (remdups ids)) @
             '' previously processed IDs from Railway database'')
            (s1\<lparr>processedIds := IdStr ` set ids\<rparr>)
      | (None, s1) \<Rightarrow>
          log_msg ''INFO'' ''No previous processed IDs found or error loading''
            (s1\<lparr>processedIds := {}\<rparr>))"

text \<open>
  The statement of \<open>saveProcessedId\<close>: \<open>INSERT ... VALUES ($1, ..., $6, NOW(), NOW()) ON
  CONFLICT (record_id) DO UPDATE SET posted_tweet_id, status, updated_at\<close>.  A new row gets
  \<open>created_at\<close> from its column default; \<open>NOW()\<close> reads the clock.  \<open>upsert_row\<close> is the
  statement on the table, with the key as the text stored; \<open>upsert_query\<close> binds the
  parameters, and \<open>saveProcessedId\<close> adds the id itself, as the program holds it, to the
  set.
\<close>

definition upsert_row ::
  "int \<Rightarrow> string \<Rightarrow> string option \<Rightarrow> string option \<Rightarrow> string \<Rightarrow> int option \<Rightarrow> string option \<Rightarrow>
   ledger_row list \<Rightarrow> ledger_row list" where
  "upsert_row now recordId postedTweetId replyToTweetId st contentLength poiTransaction tbl =
     (if recordId \<in> set (map record_id tbl)
      then map (\<lambda>r. if record_id r = recordId
                     then r\<lparr>posted_tweet_id := postedTweetId, status := st, updated_at := now\<rparr>
                     else r) tbl
      else tbl @ [\<lparr> record_id = recordId, processed_at = now,
                     posted_tweet_id = postedTweetId, reply_to_tweet_id = replyToTweetId,
                     status = st, content_length = contentLength,
                     row_poi_transaction = poiTransaction,
                     row_created_at = now, updated_at = now \<rparr>])"

definition upsert_query ::
  "js_id \<Rightarrow> string option \<Rightarrow> string option \<Rightarrow> string \<Rightarrow> int option \<Rightarrow> string option \<Rightarrow>
   bot \<Rightarrow> unit \<times> bot" where
  "upsert_query recordId postedTweetId replyToTweetId st contentLength poiTransaction s =
     ((), s\<lparr>processed_records :=
              upsert_row (clock s) (id_text recordId) postedTweetId replyToTweetId st
                contentLength poiTransaction (processed_records s)\<rparr>)"

definition saveProcessedId ::
  "env \<Rightarrow> js_id \<Rightarrow> string option \<Rightarrow> string option \<Rightarrow> string \<Rightarrow> int option \<Rightarrow> string option \<Rightarrow>
   bot \<Rightarrow> bot" where
  "saveProcessedId e recordId postedTweetId replyToTweetId st contentLength poiTransaction s =
     (case executeQuery e ''Railway''
             (upsert_query recordId postedTweetId replyToTweetId st contentLength poiTransaction) s of
        (Some _, s1) \<Rightarrow>
          log_msg ''DEBUG'' ''Saved processed record to database''
            (s1\<lparr>processedIds := insert recordId (processedIds s1)\<rparr>)
      | (None, s1) \<Rightarrow>
          upd_stats (\<lambda>st. st\<lparr>errors := errors st + 1\<rparr>)
            (log_msg ''ERROR'' ''Failed to save processed record to database'' s1))"

section \<open>Source poller\<close>

definition blank :: "string option \<Rightarrow> bool" where
  "blank v = (case v of None \<Rightarrow> True | Some a \<Rightarrow> a = [] \<or> length (trim a) = 0)"

definition isValidRecord :: "answer_row \<Rightarrow> bool" where
  "isValidRecord r =
     (if blank (answer r) then False
      else if blank (tweet_id r) then False
      else True)"

text \<open>
  \<open>SELECT * FROM twitter_answers WHERE created_at > $1 ORDER BY created_at DESC LIMIT
  50\<close>.  Rows with equal \<open>created_at\<close> come in one of the orders SQL allows.
\<close>

definition select_new_answers :: "bot \<Rightarrow> answer_row list \<times> bot" where
  "select_new_answers s =
     (take 50 (rev (sort_key created_at
        (filter (\<lambda>r. created_at r > lastCheckTime s) (twitter_answers s)))), s)"

definition getNewRecords :: "env \<Rightarrow> bot \<Rightarrow> answer_row list \<times> bot" where
  "getNewRecords e s =
     (case executeQuery e ''Main'' select_new_answers
             (log_msg ''DEBUG'' ''Executing database query'' s) of
        (Some rows, s1) \<Rightarrow>
          (let newRecords = filter (\<lambda>r. isValidRecord r \<and> id_fld r \<notin> processedIds s1) rows
           in (newRecords, log_msg ''INFO'' ''Database query completed'' s1))
      | (None, s1) \<Rightarrow>
          ([], upd_stats (\<lambda>st. st\<lparr>errors := errors st + 1\<rparr>)
                 (log_msg ''ERROR'' ''Error getting new records from database'' s1)))"


section \<open>Delivery engine\<close>

definition is_rate_limit_error :: "api_error \<Rightarrow> bool" where
  "is_rate_limit_error err =
     (err_code err = Some 429 \<or> err_title err = Some ''Too Many Requests'')"

text \<open>
  In the \<open>catch\<close> of \<open>validateTweet\<close>: the wait read from the \<open>x-rate-limit-reset\<close> header
  of the error, when the header is there and still lies in the future.
\<close>

definition reset_wait :: "api_error \<Rightarrow> int \<Rightarrow> int option" where
  "reset_wait err now =
     (case err_headers err of
        None \<Rightarrow> None
      | Some h \<Rightarrow>
          (case x_rate_limit_reset h of
             Some (Some n) \<Rightarrow> (if n * 1000 - now > 0 then Some (n * 1000 - now) else None)
           | _ \<Rightarrow> None))"

text \<open>
  \<open>validateTweet\<close> calls itself again after a rate-limit error with a reset time in the
  future, any number of times; \<open>None\<close> stands for a run that never returns.
\<close>

partial_function (option) validateTweet :: "env \<Rightarrow> string option \<Rightarrow> bot \<Rightarrow> (bool \<times> bot) option" where
  "validateTweet e tweetId s =
     (case checkRateLimit ''lookup'' s of
        (chk, s1) \<Rightarrow>
          (let s2 = (if \<not> canProceed chk then waitForRateLimit (waitTime chk) s1 else s1);
               resp = lookup_response e (lookup_calls s2);
               s3 = s2\<lparr>lookup_calls := lookup_calls s2 + 1\<rparr>
           in case resp of
                LookupOk h \<Rightarrow> Some (True, updateRateLimitInfo ''lookup'' h s3)
              | LookupErr err \<Rightarrow>
                  (let s4 = (case err_headers err of
                               None \<Rightarrow> s3
                             | Some h \<Rightarrow> updateRateLimitInfo ''lookup'' (Some h) s3)
                   in if is_rate_limit_error err then
                        (let s5 = log_msg ''WARN'' ''Rate limit hit during tweet validation'' s4
                         in case reset_wait err (clock s5) of
                              Some w \<Rightarrow> validateTweet e tweetId (waitForRateLimit w s5)
                            | None \<Rightarrow> Some (False, log_msg ''WARN'' ''Tweet validation failed'' s5))
                      else Some (False, log_msg ''WARN'' ''Tweet validation failed'' s4))))"

text \<open>The error signature of a target that is deleted or not visible.\<close>

definition target_gone :: "api_error \<Rightarrow> bool" where
  "target_gone err =
     (str_includes (err_message err) ''replied-to'' \<or>
      str_includes (err_message err) ''not found'' \<or>
      str_includes (err_message err) ''deleted'' \<or>
      str_includes (err_message err) ''not visible to you'' \<or>
      (case err_detail err of
         None \<Rightarrow> False
       | Some d \<Rightarrow> str_includes d ''deleted or not visible''))"

text \<open>The \<open>TypeError\<close> raised by \<open>answer.split\<close> when \<open>answer\<close> is \<open>null\<close>.\<close>

definition null_answer_error :: api_error where
  "null_answer_error =
     \<lparr> err_code = None, err_title = None, err_detail = None,
       err_message = ''Cannot read properties of null (reading '' @ [CHR 0x27] @ ''split'' @
                     [CHR 0x27] @ '')'',
       err_headers = None \<rparr>"

text \<open>
  The \<open>try\<close> block of \<open>postToTwitter\<close> after validation has passed: cleaning, truncation,
  the rate-limit gate and the call of the tweet endpoint.  \<open>Inl\<close> is an error thrown into
  the \<open>catch\<close>; \<open>Inr\<close> is the value returned (\<open>None\<close> for \<open>null\<close>).
\<close>

definition attempt_post ::
  "env \<Rightarrow> answer_row \<Rightarrow> bot \<Rightarrow> (api_error + (string \<times> int) option) \<times> bot" where
  "attempt_post e r s =
     (case answer r of
        None \<Rightarrow> (Inl null_answer_error, s)
      | Some a \<Rightarrow>
          (let cleanedContent = cleanAnswerForTwitter a in
           if cleanedContent = [] \<or> length (trim cleanedContent) = 0 then
             (Inr None,
              upd_stats (\<lambda>st. st\<lparr>skippedRecords := skippedRecords st + 1\<rparr>)
                (log_msg ''WARN'' ''No content left after cleaning scientific papers - SKIPPING'' s))
           else
             (let trimmedContent = trim cleanedContent;
                  finalContent = (if length trimmedContent > 20000
                                  then take 19995 trimmedContent @ ''...''
                                  else trimmedContent)
              in case checkRateLimit ''tweets'' s of
                   (chk, s1) \<Rightarrow>
                     (let s2 = (if \<not> canProceed chk then waitForRateLimit (waitTime chk) s1 else s1);
                          s3 = log_msg ''INFO'' ''Attempting to post reply'' s2;
                          resp = tweet_response e (tweet_calls s3);
                          s4 = s3\<lparr>tweets_sent := tweets_sent s3 @ [(finalContent, tweet_id r)],
                                  tweet_calls := tweet_calls s3 + 1\<rparr>
                      in case resp of
                           TweetOk tid h \<Rightarrow>
                             (Inr (Some (tid, int (length finalContent))),
                              upd_stats (\<lambda>st. st\<lparr>successfulPosts := successfulPosts st + 1\<rparr>)
                                (log_msg ''SUCCESS'' ''Successfully posted reply''
                                   (updateRateLimitInfo ''tweets'' h s4)))
                         | TweetErr err \<Rightarrow> (Inl err, s4)))))"

text \<open>The tail of the \<open>catch\<close> block, reached when the error is not retried.\<close>

definition post_failed :: "env \<Rightarrow> answer_row \<Rightarrow> api_error \<Rightarrow> bot \<Rightarrow> bot" where
  "post_failed e r err s =
     (let s1 = log_msg ''ERROR'' ''Failed to post reply'' s;
          s2 = upd_stats (\<lambda>st. st\<lparr>failedPosts := failedPosts st + 1, errors := errors st + 1\<rparr>) s1
      in if target_gone err then
           saveProcessedId e (id_fld r) None (tweet_id r) ''skipped_tweet_deleted'' None
             (poi_transaction r)
             (upd_stats (\<lambda>st. st\<lparr>skippedRecords := skippedRecords st + 1\<rparr>)
                (log_msg ''WARN'' ''Original tweet deleted/not visible - SKIPPING'' s2))
         else log_msg ''ERROR'' ''Reply failed for unknown reason'' s2)"

definition backoff_delay :: "nat \<Rightarrow> int" where
  "backoff_delay retryCount =
     (let baseDelay = retryDelayMs config;
          backoffDelay = baseDelay * rateLimitBackoffMultiplier config ^ retryCount
      in min backoffDelay (maxDelayBetweenPosts config))"

function postToTwitter ::
  "env \<Rightarrow> answer_row \<Rightarrow> nat \<Rightarrow> bot \<Rightarrow> ((string \<times> int) option \<times> bot) option" where
  "postToTwitter e r retryCount s =
     (case validateTweet e (tweet_id r)
             (log_msg ''DEBUG'' ''Validating original tweet exists'' s) of
        None \<Rightarrow> None
      | Some (tweetExists, s1) \<Rightarrow>
          (if \<not> tweetExists then
             Some (None,
               saveProcessedId e (id_fld r) None (tweet_id r) ''skipped_tweet_not_accessible'' None
                 (poi_transaction r)
                 (upd_stats (\<lambda>st. st\<lparr>skippedRecords := skippedRecords st + 1\<rparr>)
                    (log_msg ''WARN'' ''Original tweet not accessible - SKIPPING'' s1)))
           else
             (case attempt_post e r s1 of
                (Inr res, s2) \<Rightarrow> Some (res, s2)
              | (Inl err, s2) \<Rightarrow>
                  (let s3 = (case err_headers err of
                               None \<Rightarrow> s2
                             | Some h \<Rightarrow> updateRateLimitInfo ''tweets'' (Some h) s2)
                   in if is_rate_limit_error err then
                        (let s4 = log_msg ''WARN'' ''Rate limit hit during tweet posting'' s3
                         in if retryCount < maxRetries config then
                              postToTwitter e r (retryCount + 1)
                                (sleep ''backoff'' (backoff_delay retryCount)
                                   (log_msg ''INFO'' ''Retrying after rate limit backoff'' s4))
                            else
                              Some (None,
                                post_failed e r err
                                  (log_msg ''ERROR'' ''Max retries reached for rate limited tweet'' s4)))
                      else Some (None, post_failed e r err s3)))))"
  by pat_completeness auto
termination
  by (relation "measure (\<lambda>(e, r, retryCount, s). maxRetries config - retryCount)") auto

declare postToTwitter.simps [simp del]

section \<open>Poll cycle\<close>

definition logCurrentStats :: "bot \<Rightarrow> bot" where
  "logCurrentStats s = log_msg ''INFO'' ''Current session statistics'' s"

text \<open>
  The \<open>for\<close> loop of \<open>processNewRecords\<close>; \<open>n\<close> is \<open>records.length\<close>.  A returned
  \<open>tweetId\<close> counts when it is a non-empty string.
\<close>

function process_records :: "env \<Rightarrow> nat \<Rightarrow> answer_row list \<Rightarrow> bot \<Rightarrow> bot option" where
  "process_records e n [] s = Some s"
| "process_records e n (r # rs) s =
     (let s1 = upd_stats (\<lambda>st. st\<lparr>totalProcessed := totalProcessed st + 1\<rparr>) s;
          s2 = log_msg ''INFO''
                 (''Processing record '' @ show_int (totalProcessed (stats s1)) @ ''/'' @ show_nat n)
                 s1
      in case postToTwitter e r 0 s2 of
           None \<Rightarrow> None
         | Some (tweetResult, s3) \<Rightarrow>
             (let s4 = (case tweetResult of
                          None \<Rightarrow> log_msg ''ERROR'' ''Failed to process record'' s3
                        | Some (tweetId, contentLength) \<Rightarrow>
                            (if tweetId \<noteq> [] then
                               rateLimitedDelay
                                 (log_msg ''SUCCESS'' ''Successfully processed record''
                                    (saveProcessedId e (id_fld r) (Some tweetId) (tweet_id r)
                                       ''success'' (Some contentLength) (poi_transaction r) s3))
                             else log_msg ''ERROR'' ''Failed to process record'' s3))
              in process_records e n rs s4))"
  by pat_completeness auto
termination
  by (relation "measure (\<lambda>(e, n, rs, s). length rs)") simp_all

definition processNewRecords :: "env \<Rightarrow> bot \<Rightarrow> bot option" where
  "processNewRecords e s =
     (case getNewRecords e s of
        (records, s1) \<Rightarrow>
          (if length records = 0 then Some (log_msg ''INFO'' ''No new records to process'' s1)
           else
             (case process_records e (length records) records
                     (log_msg ''INFO''
                        (''Starting to process '' @ show_nat (length records) @ '' new records'') s1) of
                None \<Rightarrow> None
              | Some s2 \<Rightarrow>
                  (let newCheckTime = clock s2;
                       s3 = log_msg ''DEBUG'' ''Updating lastCheckTime'' s2;
                       s4 = s3\<lparr>lastCheckTime := newCheckTime\<rparr>
                   in Some (logCurrentStats s4)))))"


section \<open>Notions used in the statements\<close>

text \<open>One of the next three query attempts succeeds, so \<open>executeQuery\<close> returns.\<close>

definition store_reachable :: "env \<Rightarrow> bot \<Rightarrow> bool" where
  "store_reachable e s =
     (query_ok e (db_calls s) \<or> query_ok e (db_calls s + 1) \<or> query_ok e (db_calls s + 2))"

text \<open>The state after a failed query attempt, and a query run on the attempt that succeeds.\<close>

definition failed_attempt :: "string \<Rightarrow> nat \<Rightarrow> bot \<Rightarrow> bot" where
  "failed_attempt name k s =
     log_msg ''WARN'' (''Query attempt '' @ show_nat k @ '' failed ('' @ name @ '')'')
       (s\<lparr>db_calls := db_calls s + 1\<rparr>)"

definition run_query :: "(bot \<Rightarrow> 'r \<times> bot) \<Rightarrow> bot \<Rightarrow> 'r option \<times> bot" where
  "run_query q s = (case q (s\<lparr>db_calls := db_calls s + 1\<rparr>) of (r, s2) \<Rightarrow> (Some r, s2))"

text \<open>The waits of the retry backoff in \<open>postToTwitter\<close>, in order.\<close>

definition backoff_delays :: "bot \<Rightarrow> int list" where
  "backoff_delays s = map snd (filter (\<lambda>t. fst t = ''backoff'') (timers s))"

text \<open>
  An observation of the state that logging, rate-limit waits, the rate-limit table, the
  lookup counter and the wait statistics do not change.
\<close>

definition ambient :: "(bot \<Rightarrow> 'a) \<Rightarrow> bool" where
  "ambient g =
     ((\<forall>l m s. g (log_msg l m s) = g s) \<and>
      (\<forall>ms s. g (sleep ''rate-limit-wait'' ms s) = g s) \<and>
      (\<forall>f s. g (s\<lparr>rateLimits := f\<rparr>) = g s) \<and>
      (\<forall>n s. g (s\<lparr>lookup_calls := n\<rparr>) = g s) \<and>
      (\<forall>a b s. g (upd_stats (\<lambda>st. st\<lparr>rateLimitHits := a st, totalWaitTime := b st\<rparr>) s) = g s))"

text \<open>
  What the delivery of one candidate may change beyond logging and waiting: the ledger, the
  seen-set, the query counter, the watermark and the outcome counters (\<open>core_view\<close>),
  together with the tweet calls made and the backoff waits (\<open>outcome_view\<close>).
\<close>

definition core_view :: "bot \<Rightarrow> ledger_row list \<times> js_id set \<times> nat \<times> int \<times> int \<times> int \<times> int \<times> int" where
  "core_view s =
     (processed_records s, processedIds s, db_calls s, lastCheckTime s,
      successfulPosts (stats s), failedPosts (stats s), skippedRecords (stats s),
      errors (stats s))"

definition outcome_view ::
  "bot \<Rightarrow> (string \<times> string option) list \<times> nat \<times> int list \<times>
          (ledger_row list \<times> js_id set \<times> nat \<times> int \<times> int \<times> int \<times> int \<times> int)" where
  "outcome_view s = (tweets_sent s, tweet_calls s, backoff_delays s, core_view s)"

section \<open>Concrete worlds for the examples\<close>

text \<open>
  Worlds in which every query and every Twitter call succeeds (\<open>env_ok\<close>) and in which
  every query attempt fails (\<open>env_down\<close>); a tracker state recorded from headers with no
  quota left; source rows with blank content, with an id already in the ledger and with a
  fresh id; and two successive ledger writes for one id.
\<close>


definition env_ok :: env where
  "env_ok = \<lparr> query_ok = (\<lambda>n. True), lookup_response = (\<lambda>n. LookupOk None),
               tweet_response = (\<lambda>n. TweetOk ''9001'' None) \<rparr>"

definition zero_quota_headers :: headers where
  "zero_quota_headers =
     \<lparr> x_rate_limit_remaining = Some (Some 0), x_rate_limit_reset = Some (Some 1010),
       x_rate_limit_limit = Some (Some 300) \<rparr>"

definition zero_quota_bot :: bot where
  "zero_quota_bot = updateRateLimitInfo ''tweets'' (Some zero_quota_headers) (new_bot 1000000 [] [])"

definition env_down :: env where
  "env_down = \<lparr> query_ok = (\<lambda>n. False), lookup_response = (\<lambda>n. LookupOk None),
                 tweet_response = (\<lambda>n. TweetOk ''9001'' None) \<rparr>"

definition blank_row :: answer_row where
  "blank_row = \<lparr> id_fld = IdStr ''1'', answer = Some '' '', tweet_id = Some ''123'',
                  poi_transaction = None, created_at = 90000000 \<rparr>"

definition blank_bot :: bot where
  "blank_bot = new_bot 100000000 [blank_row] []"

definition seen_row :: answer_row where
  "seen_row = \<lparr> id_fld = IdStr ''7'', answer = Some ''Old answer'', tweet_id = Some ''122'',
                 poi_transaction = Some ''0xabc'', created_at = 80000000 \<rparr>"

definition fresh_row :: answer_row where
  "fresh_row = \<lparr> id_fld = IdStr ''8'', answer = Some ''New answer'', tweet_id = Some ''124'',
                  poi_transaction = None, created_at = 95000000 \<rparr>"

definition seen_ledger_row :: ledger_row where
  "seen_ledger_row =
     \<lparr> record_id = ''7'', processed_at = 85000000, posted_tweet_id = Some ''9000'',
       reply_to_tweet_id = Some ''122'', status = ''success'', content_length = Some 10,
       row_poi_transaction = Some ''0xabc'', row_created_at = 85000000, updated_at = 85000000 \<rparr>"

definition numeric_row :: answer_row where
  "numeric_row = \<lparr> id_fld = IdNum 7, answer = Some ''Old answer'', tweet_id = Some ''122'',
                    poi_transaction = Some ''0xabc'', created_at = 80000000 \<rparr>"

definition numeric_restarted_bot :: bot where
  "numeric_restarted_bot =
     loadProcessedIds env_ok (new_bot 100000000 [numeric_row] [seen_ledger_row])"

definition restarted_bot :: bot where
  "restarted_bot =
     loadProcessedIds env_ok (new_bot 100000000 [seen_row, fresh_row, blank_row] [seen_ledger_row])"

definition first_save :: bot where
  "first_save =
     saveProcessedId env_ok (IdStr ''7'') None (Some ''122'') ''skipped_tweet_not_accessible'' None None
       (sleep ''earlier'' 500 (new_bot 0 [] []))"

definition second_save :: bot where
  "second_save =
     saveProcessedId env_ok (IdStr ''7'') (Some ''9000'') (Some ''122'') ''success'' (Some 10) None
       (sleep ''later'' 700 first_save)"

subsection \<open>Worlds for the delivery examples\<close>

text \<open>
  A lookup that fails with 404 (with the store up and with the store down), a tweet
  endpoint that always answers 429, a candidate with plain content and a candidate whose
  content is nothing but the references header.
\<close>

definition not_found_error :: api_error where
  "not_found_error =
     \<lparr> err_code = Some 404, err_title = Some ''Not Found Error'', err_detail = None,
       err_message = ''Request failed with code 404'', err_headers = None \<rparr>"

definition env_target_gone :: env where
  "env_target_gone = \<lparr> query_ok = (\<lambda>n. True), lookup_response = (\<lambda>n. LookupErr not_found_error),
               tweet_response = (\<lambda>n. TweetOk ''9001'' None) \<rparr>"

definition env_target_gone_db_down :: env where
  "env_target_gone_db_down =
     \<lparr> query_ok = (\<lambda>n. False), lookup_response = (\<lambda>n. LookupErr not_found_error),
       tweet_response = (\<lambda>n. TweetOk ''9001'' None) \<rparr>"

definition gone_row :: answer_row where
  "gone_row = \<lparr> id_fld = IdStr ''5'', answer = Some ''Hello'', tweet_id = Some ''404404'',
                 poi_transaction = None, created_at = 90000000 \<rparr>"

definition gone_bot :: bot where
  "gone_bot = new_bot 100000000 [gone_row] []"

definition papers_row :: answer_row where
  "papers_row = \<lparr> id_fld = IdStr ''6'', answer = Some ''Science papers:'', tweet_id = Some ''124'',
                   poi_transaction = None, created_at = 90000000 \<rparr>"

definition papers_bot :: bot where
  "papers_bot = new_bot 100000000 [papers_row] []"

definition rate_limit_error :: api_error where
  "rate_limit_error =
     \<lparr> err_code = Some 429, err_title = Some ''Too Many Requests'',
       err_detail = Some ''Too Many Requests'',
       err_message = ''Request failed with code 429'', err_headers = None \<rparr>"

definition env_rate_limited :: env where
  "env_rate_limited =
     \<lparr> query_ok = (\<lambda>n. True), lookup_response = (\<lambda>n. LookupOk None),
       tweet_response = (\<lambda>n. TweetErr rate_limit_error) \<rparr>"

text \<open>
  A 429 whose message also names a missing tweet; a store that answers the fetch, fails the
  three attempts of the write that follows and answers again afterwards; and the state in
  which the next poll starts, one poll interval after a cycle has ended.
\<close>

definition rate_limit_gone_error :: api_error where
  "rate_limit_gone_error =
     \<lparr> err_code = Some 429, err_title = Some ''Too Many Requests'', err_detail = None,
       err_message = ''Too Many Requests: tweet not found'', err_headers = None \<rparr>"

definition env_rate_limited_gone :: env where
  "env_rate_limited_gone =
     \<lparr> query_ok = (\<lambda>n. True), lookup_response = (\<lambda>n. LookupOk None),
       tweet_response = (\<lambda>n. TweetErr rate_limit_gone_error) \<rparr>"

definition env_write_fails :: env where
  "env_write_fails =
     \<lparr> query_ok = (\<lambda>n. n = 0 \<or> 4 \<le> n), lookup_response = (\<lambda>n. LookupOk None),
       tweet_response = (\<lambda>n. TweetOk ''9001'' None) \<rparr>"

definition after_cycle :: "env \<Rightarrow> bot \<Rightarrow> bot" where
  "after_cycle e s = sleep ''poll-interval'' 60000 (the (processNewRecords e s))"

section \<open>Properties of the content cleaner\<close>

lemma dropWhile_fix: "(xs = [] \<or> \<not> P (hd xs)) \<Longrightarrow> dropWhile P xs = xs"
  by (cases xs) auto

lemma dropWhile_hd: "dropWhile P xs = [] \<or> \<not> P (hd (dropWhile P xs))"
  by (metis hd_dropWhile)

lemma trim_shape: "trim s = [] \<or> (\<not> is_ws (hd (trim s)) \<and> \<not> is_ws (last (trim s)))"
proof (cases "trim s = []")
  case True then show ?thesis by simp
next
  case False
  define u where "u = dropWhile is_ws s"
  define v where "v = dropWhile is_ws (rev u)"
  have t: "trim s = rev v" by (simp add: trim_def u_def v_def)
  with False have vne: "v \<noteq> []" by simp
  have lastv: "\<not> is_ws (hd v)" using vne dropWhile_hd[of is_ws "rev u"] unfolding v_def by blast
  have "suffix v (rev u)" by (simp add: v_def suffix_dropWhile)
  then obtain p where p: "rev u = p @ v" by (auto simp: suffix_def)
  then have "u = rev v @ rev p" by (metis rev_append rev_rev_ident)
  then have "hd u = hd (rev v)" using vne by simp
  moreover have "u \<noteq> []" using p vne by auto
  then have "\<not> is_ws (hd u)" using dropWhile_hd[of is_ws s] unfolding u_def by blast
  ultimately have "\<not> is_ws (hd (trim s))" using t by simp
  moreover have "\<not> is_ws (last (trim s))" using t lastv vne by (simp add: last_rev)
  ultimately show ?thesis by simp
qed

lemma trim_fix: "s = [] \<or> (\<not> is_ws (hd s) \<and> \<not> is_ws (last s)) \<Longrightarrow> trim s = s"
proof (cases "s = []")
  case True then show ?thesis by (simp add: trim_def)
next
  case False
  assume "s = [] \<or> (\<not> is_ws (hd s) \<and> \<not> is_ws (last s))"
  with False have h: "\<not> is_ws (hd s)" and l: "\<not> is_ws (last s)" by auto
  have 1: "dropWhile is_ws s = s" using h by (simp add: dropWhile_fix)
  have "hd (rev s) = last s" using False by (simp add: hd_rev)
  then have 2: "dropWhile is_ws (rev s) = rev s" using l by (simp add: dropWhile_fix)
  show ?thesis by (simp add: trim_def 1 2)
qed

lemma trim_idem: "trim (trim s) = trim s"
  using trim_shape[of s] by (rule trim_fix)

lemma sublist_trim: "sublist (trim s) s"
proof -
  have "sublist (trim s) (dropWhile is_ws s)"
    unfolding trim_def by (metis sublist_dropWhile sublist_rev_left)
  then show ?thesis using sublist_dropWhile sublist_order.order_trans by blast
qed

lemma trim_decomp:
  "\<exists>A B. s = A @ trim s @ B \<and> (\<forall>c\<in>set A. is_ws c) \<and> (\<forall>c\<in>set B. is_ws c)"
proof -
  define u where "u = dropWhile is_ws s"
  have 1: "s = takeWhile is_ws s @ u" by (simp add: u_def)
  have "rev u = takeWhile is_ws (rev u) @ dropWhile is_ws (rev u)" by simp
  then have "rev (rev u) = rev (takeWhile is_ws (rev u) @ dropWhile is_ws (rev u))" by simp
  then have 2: "u = trim s @ rev (takeWhile is_ws (rev u))"
    by (simp add: trim_def u_def del: takeWhile_dropWhile_id)
  have a: "\<forall>c\<in>set (takeWhile is_ws s). is_ws c" by (auto dest: set_takeWhileD)
  have b: "\<forall>c\<in>set (rev (takeWhile is_ws (rev u))). is_ws c" by (auto dest: set_takeWhileD)
  from 1 2 have "s = takeWhile is_ws s @ trim s @ rev (takeWhile is_ws (rev u))" by simp
  with a b show ?thesis by blast
qed

lemma sublist_drop_front:
  "X \<noteq> [] \<Longrightarrow> hd X \<notin> set A \<Longrightarrow> sublist X (A @ M) \<Longrightarrow> sublist X M"
proof (induction A)
  case Nil then show ?case by simp
next
  case (Cons a A)
  from Cons.prems(3) have "prefix X (a # A @ M) \<or> sublist X (A @ M)"
    by (simp add: sublist_Cons_right)
  moreover have "\<not> prefix X (a # A @ M)"
  proof
    assume "prefix X (a # A @ M)"
    with Cons.prems(1) have "hd X = a" by (cases X) auto
    with Cons.prems(2) show False by simp
  qed
  ultimately show ?case using Cons by simp
qed

lemma sublist_drop_back:
  assumes "X \<noteq> []" "last X \<notin> set B" "sublist X (M @ B)"
  shows "sublist X M"
proof -
  have "sublist (rev X) (rev B @ rev M)" using assms(3) by (metis rev_append sublist_rev)
  moreover have "hd (rev X) \<notin> set (rev B)" using assms(1,2) by (simp add: hd_rev)
  ultimately have "sublist (rev X) (rev M)" using assms(1) sublist_drop_front[of "rev X" "rev B" "rev M"] by simp
  then show ?thesis by simp
qed

lemma ws_lower: "is_ws c \<Longrightarrow> lower_char c = c"
  by (auto simp: is_ws_def lower_char_def)

lemma marker_ends: "is_ws c \<Longrightarrow> lower_char c \<noteq> hd marker \<and> lower_char c \<noteq> last marker"
  by (auto simp: ws_lower) (auto simp: is_ws_def marker_def)

lemma marker_trim:
  "str_includes (toLowerCase (trim l)) marker = str_includes (toLowerCase l) marker"
proof
  assume "str_includes (toLowerCase (trim l)) marker"
  then show "str_includes (toLowerCase l) marker"
    unfolding str_includes_def toLowerCase_def
    using map_mono_sublist[OF sublist_trim] sublist_order.order_trans by blast
next
  assume a: "str_includes (toLowerCase l) marker"
  obtain A B where d: "l = A @ trim l @ B" and wa: "\<forall>c\<in>set A. is_ws c" and wb: "\<forall>c\<in>set B. is_ws c"
    using trim_decomp by blast
  have ne: "marker \<noteq> []" by (simp add: marker_def)
  have "sublist marker (map lower_char A @ (map lower_char (trim l) @ map lower_char B))"
    using a d unfolding str_includes_def toLowerCase_def by (metis map_append)
  moreover have "hd marker \<notin> set (map lower_char A)"
  proof
    assume "hd marker \<in> set (map lower_char A)"
    then obtain c where "c \<in> set A" "lower_char c = hd marker" by auto
    then show False using wa marker_ends by blast
  qed
  ultimately have "sublist marker (map lower_char (trim l) @ map lower_char B)"
    using ne sublist_drop_front by blast
  moreover have "last marker \<notin> set (map lower_char B)"
  proof
    assume "last marker \<in> set (map lower_char B)"
    then obtain c where "c \<in> set B" "lower_char c = last marker" by auto
    then show False using wb marker_ends by blast
  qed
  ultimately have "sublist marker (map lower_char (trim l))"
    using ne sublist_drop_back by blast
  then show "str_includes (toLowerCase (trim l)) marker"
    by (simp add: str_includes_def toLowerCase_def)
qed

lemma prefix_before_sep:
  "c \<notin> set X \<Longrightarrow> prefix X (A @ c # B) \<Longrightarrow> prefix X A"
  by (auto simp: prefix_append prefix_Cons)

lemma sublist_across_sep:
  "c \<notin> set X \<Longrightarrow> sublist X (A @ c # B) \<Longrightarrow> sublist X A \<or> sublist X B"
proof (induction A)
  case Nil
  then show ?case by (auto simp: sublist_Cons_right prefix_Cons)
next
  case (Cons a A)
  from Cons.prems(2) have "prefix X ((a # A) @ c # B) \<or> sublist X (A @ c # B)"
    by (metis append_Cons sublist_Cons_right)
  then consider (p) "prefix X ((a # A) @ c # B)" | (s) "sublist X (A @ c # B)" by blast
  then show ?case
  proof cases
    case p
    have "prefix X (a # A)" by (rule prefix_before_sep[OF Cons.prems(1) p])
    then have "sublist X (a # A)" by (rule prefix_imp_sublist)
    then show ?thesis by blast
  next
    case s
    then have "sublist X A \<or> sublist X B" using Cons.IH Cons.prems(1) by blast
    then show ?thesis by (metis sublist_Cons_right)
  qed
qed


lemma sublist_join_lines:
  "X \<noteq> [] \<Longrightarrow> NL \<notin> set X \<Longrightarrow> sublist X (join_lines R) \<Longrightarrow> \<exists>l\<in>set R. sublist X l"
proof (induction R rule: join_lines.induct)
  case 1 then show ?case by simp
next
  case (2 l) then show ?case by simp
next
  case (3 l l' ls)
  from "3.prems"(3) have "sublist X (l @ NL # join_lines (l' # ls))" by simp
  then have "sublist X l \<or> sublist X (join_lines (l' # ls))"
    by (rule sublist_across_sep[OF "3.prems"(2)])
  then show ?case
  proof
    assume "sublist X l" then show ?thesis by simp
  next
    assume "sublist X (join_lines (l' # ls))"
    then have "\<exists>l\<in>set (l' # ls). sublist X l" by (rule "3.IH"[OF "3.prems"(1,2)])
    then show ?thesis by simp
  qed
qed

lemma lower_NL: "lower_char NL = NL"
  by (simp add: NL_def lower_char_def)

lemma lower_join_lines: "map lower_char (join_lines R) = join_lines (map (map lower_char) R)"
  by (induction R rule: join_lines.induct) (simp_all add: lower_NL)

lemma clean_loop_no_marker:
  "l \<in> set (clean_loop sk ls) \<Longrightarrow> \<not> str_includes (toLowerCase (trim l)) marker"
  by (induction sk ls rule: clean_loop.induct) (auto simp: Let_def split: if_splits)

lemma clean_loop_id:
  "\<forall>l\<in>set ls. \<not> str_includes (toLowerCase (trim l)) marker \<Longrightarrow> clean_loop False ls = ls"
  by (induction ls) (auto simp: Let_def)

lemma split_lines_nonempty: "split_lines s \<noteq> []"
  by (induction s) (auto split: list.splits)

lemma line_sublist: "l \<in> set (split_lines s) \<Longrightarrow> sublist l s"
proof (induction s arbitrary: l)
  case Nil then show ?case by simp
next
  case (Cons c cs)
  show ?case
  proof (cases "c = NL")
    case True
    with Cons.prems have "l = [] \<or> l \<in> set (split_lines cs)" by auto
    then show ?thesis using Cons.IH by (auto simp: sublist_Cons_right)
  next
    case False
    obtain l0 ls where s: "split_lines cs = l0 # ls" using split_lines_nonempty by (cases "split_lines cs") auto
    with False Cons.prems have "l = c # l0 \<or> l \<in> set ls" by auto
    then show ?thesis
    proof
      assume l: "l = c # l0"
      have "prefix l0 cs" using s
      proof (induction cs arbitrary: l0 ls)
        case Nil then show ?case by simp
      next
        case (Cons d ds)
        then show ?case by (auto split: if_splits list.splits)
      qed
      then show ?thesis using l by auto
    next
      assume "l \<in> set ls"
      then have "sublist l cs" using Cons.IH s by simp
      then show ?thesis by (auto simp: sublist_Cons_right)
    qed
  qed
qed

lemma join_split_lines: "join_lines (split_lines s) = s"
proof (induction s)
  case Nil then show ?case by simp
next
  case (Cons c cs)
  obtain l0 ls where s: "split_lines cs = l0 # ls" using split_lines_nonempty by (cases "split_lines cs") auto
  show ?case using Cons s by (cases ls) auto
qed

lemma marker_no_NL: "NL \<notin> set marker" "marker \<noteq> []"
  by (simp_all add: marker_def NL_def)

lemma clean_output_no_marker: "\<not> str_includes (toLowerCase (cleanAnswerForTwitter x)) marker"
proof
  let ?R = "clean_loop False (split_lines x)"
  assume "str_includes (toLowerCase (cleanAnswerForTwitter x)) marker"
  then have "sublist marker (map lower_char (trim (join_lines ?R)))"
    by (simp add: str_includes_def toLowerCase_def cleanAnswerForTwitter_def)
  then have "sublist marker (map lower_char (join_lines ?R))"
    using map_mono_sublist[OF sublist_trim] sublist_order.order_trans by blast
  then have "sublist marker (join_lines (map (map lower_char) ?R))" by (simp add: lower_join_lines)
  then have "\<exists>l'\<in>set (map (map lower_char) ?R). sublist marker l'"
    by (rule sublist_join_lines[OF marker_no_NL(2) marker_no_NL(1)])
  then obtain l' where "l' \<in> set (map (map lower_char) ?R)" "sublist marker l'" ..
  then obtain l where l: "l \<in> set ?R" and "sublist marker (map lower_char l)" by auto
  then have "str_includes (toLowerCase l) marker" by (simp add: str_includes_def toLowerCase_def)
  then have "str_includes (toLowerCase (trim l)) marker" by (simp add: marker_trim)
  with l show False using clean_loop_no_marker by blast
qed

text \<open>
  Claim C7.  The cleaner is a function of its argument alone.  On the text
  \<open>Hello / Science papers: / Smith 2020.01.01 / 10.1234/x\<close> (four lines) it returns
  \<open>Hello\<close>, and on \<open>Hello / (blank) / More content\<close>, which has no marker line, it
  returns the text unchanged.
\<close>

theorem clean_examples:
  "cleanAnswerForTwitter
     (''Hello'' @ [NL] @ ''Science papers:'' @ [NL] @ ''Smith 2020.01.01'' @ [NL] @ ''10.1234/x'')
     = ''Hello''
   \<and> cleanAnswerForTwitter (''Hello'' @ [NL, NL] @ ''More content'')
     = ''Hello'' @ [NL, NL] @ ''More content''"
  by (rule conjI; code_simp)

text \<open>
  Claim C10.  The cleaner is idempotent: cleaning its own output changes nothing.  No kept
  line contains the marker (in any letter case), so the second pass keeps every line, and
  the output is already trimmed.
\<close>

theorem clean_idempotent: "cleanAnswerForTwitter (cleanAnswerForTwitter x) = cleanAnswerForTwitter x"
proof -
  let ?y = "cleanAnswerForTwitter x"
  have "\<forall>l\<in>set (split_lines ?y). \<not> str_includes (toLowerCase (trim l)) marker"
  proof
    fix l assume "l \<in> set (split_lines ?y)"
    then have "sublist l ?y" by (rule line_sublist)
    then have "sublist (map lower_char l) (map lower_char ?y)" by (rule map_mono_sublist)
    moreover have "\<not> sublist marker (map lower_char ?y)"
      using clean_output_no_marker[of x] by (simp add: str_includes_def toLowerCase_def)
    ultimately have "\<not> sublist marker (map lower_char l)"
      using sublist_order.order_trans by blast
    then show "\<not> str_includes (toLowerCase (trim l)) marker"
      by (simp add: marker_trim) (simp add: str_includes_def toLowerCase_def)
  qed
  then have "clean_loop False (split_lines ?y) = split_lines ?y" by (rule clean_loop_id)
  then have "cleanAnswerForTwitter ?y = trim ?y"
    by (simp add: cleanAnswerForTwitter_def[of ?y] join_split_lines)
  also have "\<dots> = ?y" by (simp add: cleanAnswerForTwitter_def trim_idem)
  finally show ?thesis .
qed

section \<open>Database access, rate limiting and validation: basic facts\<close>

lemma executeQuery_unroll:
  "executeQuery e name q s =
     (if query_ok e (db_calls s) then run_query q s
      else if query_ok e (db_calls s + 1)
        then run_query q (sleep ''query-retry'' 1000 (failed_attempt name 1 s))
      else if query_ok e (db_calls s + 2)
        then run_query q (sleep ''query-retry'' 2000 (failed_attempt name 2
               (sleep ''query-retry'' 1000 (failed_attempt name 1 s))))
      else (None, failed_attempt name 3 (sleep ''query-retry'' 2000 (failed_attempt name 2
               (sleep ''query-retry'' 1000 (failed_attempt name 1 s))))))"
  unfolding executeQuery_def
  apply (subst executeQuery_loop.simps)
  apply (subst executeQuery_loop.simps)
  apply (subst executeQuery_loop.simps)
  apply (simp add: maxAttempts_def Let_def run_query_def failed_attempt_def sleep_def log_msg_def
     numeral_2_eq_2 numeral_3_eq_3)
  done

lemma ambient_log: "ambient g \<Longrightarrow> g (log_msg l m s) = g s"
  and ambient_sleep: "ambient g \<Longrightarrow> g (sleep ''rate-limit-wait'' ms s) = g s"
  and ambient_rateLimits: "ambient g \<Longrightarrow> g (s\<lparr>rateLimits := f\<rparr>) = g s"
  and ambient_lookup_calls: "ambient g \<Longrightarrow> g (s\<lparr>lookup_calls := n\<rparr>) = g s"
  and ambient_wait_stats:
    "ambient g \<Longrightarrow> g (upd_stats (\<lambda>st. st\<lparr>rateLimitHits := a st, totalWaitTime := b st\<rparr>) s) = g s"
  by (simp_all add: ambient_def)

lemma ambient_update:
  assumes "ambient g" shows "g (updateRateLimitInfo ep h s) = g s"
  by (simp add: updateRateLimitInfo_def Let_def ambient_log[OF assms] ambient_rateLimits[OF assms]
           split: option.splits)

lemma ambient_check:
  assumes "ambient g" shows "g (snd (checkRateLimit ep s)) = g s"
  by (simp add: checkRateLimit_def Let_def ambient_log[OF assms] ambient_rateLimits[OF assms]
           split: option.splits)

lemma ambient_wait_loop:
  assumes "ambient g" shows "g (wait_loop w s) = g s"
proof (induction w s rule: wait_loop.induct)
  case (1 w s)
  show ?case
  proof (cases "w > 0 \<and> isRunning s")
    case False
    then have "wait_loop w s = s" by (subst wait_loop.simps) auto
    then show ?thesis by simp
  next
    case True
    define s2 where "s2 =
      (if 0 < w - min 5000 w
       then log_msg ''DEBUG'' ''Still waiting for rate limit reset''
              (sleep ''rate-limit-wait'' (min 5000 w) s)
       else sleep ''rate-limit-wait'' (min 5000 w) s)"
    have "wait_loop w s = wait_loop (w - min 5000 w) s2"
      using True by (subst wait_loop.simps) (simp add: Let_def s2_def)
    moreover have "g (wait_loop (w - min 5000 w) s2) = g s2"
      unfolding s2_def by (rule "1.IH"[OF True refl refl refl refl])
    moreover have "g s2 = g s"
      by (simp add: s2_def ambient_log[OF assms] ambient_sleep[OF assms])
    ultimately show ?thesis by simp
  qed
qed

lemma ambient_isRunning: "ambient isRunning"
  by (simp add: ambient_def log_msg_def sleep_def upd_stats_def)

lemma ambient_waitFor:
  assumes "ambient g" shows "g (waitForRateLimit w s) = g s"
  by (simp add: waitForRateLimit_def Let_def ambient_log[OF assms] ambient_wait_loop[OF assms]
        ambient_wait_stats[OF assms])

lemma ambient_validateTweet:
  assumes "ambient g" and "validateTweet e t s = Some y"
  shows "g (snd y) = g s"
proof (rule validateTweet.raw_induct[where P = "\<lambda>e t s y. g (snd y) = g s", OF _ assms(2)], goal_cases)
  case (1 vt e t s y)
  note [simp] = ambient_log[OF assms(1)] ambient_update[OF assms(1)]
    ambient_waitFor[OF assms(1)] ambient_lookup_calls[OF assms(1)]
  have c: "g (snd (checkRateLimit ''lookup'' s)) = g s" by (rule ambient_check[OF assms(1)])
  obtain chk s1 where cr: "checkRateLimit ''lookup'' s = (chk, s1)" by (cases "checkRateLimit ''lookup'' s")
  with c have s1: "g s1 = g s" by simp
  from 1(2)[unfolded cr] 1(1) s1 show ?case
    by (auto simp: Let_def split: lookup_result.splits if_splits option.splits)
qed

lemma validateTweet_ok:
  assumes "\<forall>n. \<exists>h. lookup_response e n = LookupOk h"
  shows "\<exists>s1. validateTweet e t s = Some (True, s1)"
proof -
  obtain chk s1 where cr: "checkRateLimit ''lookup'' s = (chk, s1)" by (cases "checkRateLimit ''lookup'' s")
  define s2 where "s2 = (if \<not> canProceed chk then waitForRateLimit (waitTime chk) s1 else s1)"
  obtain h where h: "lookup_response e (lookup_calls s2) = LookupOk h" using assms by blast
  show ?thesis
    using h by (subst validateTweet.simps) (simp add: cr Let_def s2_def)
qed

section \<open>Ledger and source poller\<close>

lemma store_reachable_log [simp]: "store_reachable e (log_msg l m s) = store_reachable e s"
  by (simp add: store_reachable_def log_msg_def)

lemma store_reachable_upd_stats [simp]: "store_reachable e (upd_stats f s) = store_reachable e s"
  by (simp add: store_reachable_def upd_stats_def)

lemma executeQuery_down:
  "\<not> store_reachable e s \<Longrightarrow>
   executeQuery e name q s =
     (None, failed_attempt name 3 (sleep ''query-retry'' 2000 (failed_attempt name 2
               (sleep ''query-retry'' 1000 (failed_attempt name 1 s)))))"
  by (simp add: executeQuery_unroll store_reachable_def)

lemma executeQuery_up:
  assumes "store_reachable e s"
  shows "\<exists>s0. executeQuery e name q s = run_query q s0 \<and>
              logs s0 = logs s @ drop (length (logs s)) (logs s0) \<and>
              lastCheckTime s0 = lastCheckTime s \<and> processedIds s0 = processedIds s \<and>
              isRunning s0 = isRunning s \<and> stats s0 = stats s \<and> rateLimits s0 = rateLimits s \<and>
              clock s \<le> clock s0 \<and> twitter_answers s0 = twitter_answers s \<and>
              processed_records s0 = processed_records s \<and> tweets_sent s0 = tweets_sent s \<and>
              backoff_delays s0 = backoff_delays s \<and>
              lookup_calls s0 = lookup_calls s \<and> tweet_calls s0 = tweet_calls s"
proof -
  let ?s1 = "sleep ''query-retry'' 1000 (failed_attempt name 1 s)"
  let ?s2 = "sleep ''query-retry'' 2000 (failed_attempt name 2 ?s1)"
  consider (a) "query_ok e (db_calls s)"
    | (b) "\<not> query_ok e (db_calls s)" "query_ok e (db_calls s + 1)"
    | (c) "\<not> query_ok e (db_calls s)" "\<not> query_ok e (db_calls s + 1)" "query_ok e (db_calls s + 2)"
    using assms by (auto simp: store_reachable_def)
  then show ?thesis
  proof cases
    case a
    then have "executeQuery e name q s = run_query q s" by (simp add: executeQuery_unroll)
    then show ?thesis by (intro exI[of _ s]) simp
  next
    case b
    then have "executeQuery e name q s = run_query q ?s1" by (simp add: executeQuery_unroll)
    then show ?thesis
      by (intro exI[of _ ?s1]) (simp add: sleep_def failed_attempt_def log_msg_def backoff_delays_def)
  next
    case c
    then have "executeQuery e name q s = run_query q ?s2" by (simp add: executeQuery_unroll)
    then show ?thesis
      by (intro exI[of _ ?s2]) (simp add: sleep_def failed_attempt_def log_msg_def backoff_delays_def)
  qed
qed

text \<open>
  Claim C2.  After the headers \<open>remaining = 0\<close>, \<open>reset = 1010 s\<close>, \<open>limit = 300\<close> have been
  recorded at time 1000000 ms, \<open>checkRateLimit\<close> still answers \<open>canProceed = true\<close> with no
  wait, although \<open>resetTime\<close> lies 10 s ahead; and once the clock has passed \<open>resetTime\<close> it
  leaves \<open>remaining\<close> at 0 instead of setting it to \<open>limit\<close>.  The zero is taken for
  "nothing recorded" by the first test of the function.
\<close>

theorem checkRateLimit_zero_remaining:
  "map_option remaining (rateLimits zero_quota_bot ''tweets'') = Some (Some 0) \<and>
   map_option resetTime (rateLimits zero_quota_bot ''tweets'') = Some (Some 1010000) \<and>
   map_option limit (rateLimits zero_quota_bot ''tweets'') = Some (Some 300) \<and>
   clock zero_quota_bot = 1000000 \<and>
   fst (checkRateLimit ''tweets'' zero_quota_bot) = \<lparr>canProceed = True, waitTime = 0\<rparr> \<and>
   clock (sleep ''later'' 20000 zero_quota_bot) = 1020000 \<and>
   map_option remaining
     (rateLimits (snd (checkRateLimit ''tweets'' (sleep ''later'' 20000 zero_quota_bot))) ''tweets'')
     = Some (Some 0)"
  by (simp add: zero_quota_bot_def zero_quota_headers_def new_bot_def updateRateLimitInfo_def
        empty_rate_limit_def log_msg_def checkRateLimit_def truthy_def sleep_def Let_def)

theorem checkRateLimit_zero_remaining_witness:
  "canProceed (fst (checkRateLimit ''tweets'' zero_quota_bot)) \<and>
   waitTime (fst (checkRateLimit ''tweets'' zero_quota_bot)) = 0"
  using checkRateLimit_zero_remaining by simp

lemma saveProcessedId_down:
  assumes "\<not> store_reachable e s"
  shows "processedIds (saveProcessedId e rid p r st c poi s) = processedIds s"
    and "processed_records (saveProcessedId e rid p r st c poi s) = processed_records s"
    and "last (logs (saveProcessedId e rid p r st c poi s)) =
           (''ERROR'', ''Failed to save processed record to database'')"
    and "errors (stats (saveProcessedId e rid p r st c poi s)) = errors (stats s) + 1"
    and "tweets_sent (saveProcessedId e rid p r st c poi s) = tweets_sent s"
    and "lastCheckTime (saveProcessedId e rid p r st c poi s) = lastCheckTime s"
  by (simp_all add: saveProcessedId_def executeQuery_down[OF assms] upd_stats_def log_msg_def
        failed_attempt_def sleep_def)

lemma saveProcessedId_up:
  assumes "store_reachable e s"
  shows "processedIds (saveProcessedId e rid p r st c poi s) = insert rid (processedIds s)"
    and "processed_records (saveProcessedId e rid p r st c poi s) =
           upsert_row (clock (saveProcessedId e rid p r st c poi s)) (id_text rid) p r st c poi
             (processed_records s)"
    and "stats (saveProcessedId e rid p r st c poi s) = stats s"
    and "tweets_sent (saveProcessedId e rid p r st c poi s) = tweets_sent s"
    and "lastCheckTime (saveProcessedId e rid p r st c poi s) = lastCheckTime s"
    and "clock s \<le> clock (saveProcessedId e rid p r st c poi s)"
proof -
  obtain s0 where "executeQuery e ''Railway'' (upsert_query rid p r st c poi) s =
      run_query (upsert_query rid p r st c poi) s0"
    and "lastCheckTime s0 = lastCheckTime s" "processedIds s0 = processedIds s"
    and "stats s0 = stats s" "clock s \<le> clock s0" "processed_records s0 = processed_records s"
    and "tweets_sent s0 = tweets_sent s"
    using executeQuery_up[OF assms] by blast
  then show "processedIds (saveProcessedId e rid p r st c poi s) = insert rid (processedIds s)"
    and "processed_records (saveProcessedId e rid p r st c poi s) =
           upsert_row (clock (saveProcessedId e rid p r st c poi s)) (id_text rid) p r st c poi
             (processed_records s)"
    and "stats (saveProcessedId e rid p r st c poi s) = stats s"
    and "tweets_sent (saveProcessedId e rid p r st c poi s) = tweets_sent s"
    and "lastCheckTime (saveProcessedId e rid p r st c poi s) = lastCheckTime s"
    and "clock s \<le> clock (saveProcessedId e rid p r st c poi s)"
    by (simp_all add: saveProcessedId_def run_query_def upsert_query_def log_msg_def)
qed

lemma trim_Nil [simp]: "trim [] = []"
  by (simp add: trim_def)

lemma isValidRecord_iff:
  "isValidRecord r \<longleftrightarrow>
     (\<exists>a. answer r = Some a \<and> trim a \<noteq> []) \<and> (\<exists>t. tweet_id r = Some t \<and> trim t \<noteq> [])"
  by (auto simp: isValidRecord_def blank_def split: option.splits)

text \<open>
  Claim C9, as amended.  When all three query attempts of \<open>saveProcessedId\<close> fail, the
  ledger and \<open>processedIds\<close> are unchanged, the last log entry is the error, and the error
  counter goes up by one.  \<open>processedIds\<close> gains the id exactly when an attempt succeeds.
\<close>

theorem saveProcessedId_failure_keeps_seen_set:
  assumes "s' = saveProcessedId e recordId postedTweetId replyToTweetId st contentLength poi s"
  shows "(\<not> store_reachable e s \<longrightarrow>
            processedIds s' = processedIds s \<and> processed_records s' = processed_records s \<and>
            last (logs s') = (''ERROR'', ''Failed to save processed record to database'') \<and>
            errors (stats s') = errors (stats s) + 1) \<and>
         (store_reachable e s \<longrightarrow> processedIds s' = insert recordId (processedIds s)) \<and>
         (recordId \<in> processedIds s' \<and> recordId \<notin> processedIds s \<longrightarrow> store_reachable e s)"
proof (cases "store_reachable e s")
  case True
  then show ?thesis unfolding assms by (simp add: saveProcessedId_up)
next
  case False
  then show ?thesis unfolding assms by (simp add: saveProcessedId_down)
qed

theorem saveProcessedId_failure_witness:
  "\<not> store_reachable env_down (new_bot 0 [] []) \<and>
   processedIds (saveProcessedId env_down (IdStr ''7'') None (Some ''123'') ''success'' None None
                  (new_bot 0 [] [])) = {} \<and>
   processed_records (saveProcessedId env_down (IdStr ''7'') None (Some ''123'') ''success'' None None
                  (new_bot 0 [] [])) = [] \<and>
   store_reachable env_ok (new_bot 0 [] []) \<and>
   processedIds (saveProcessedId env_ok (IdStr ''7'') None (Some ''123'') ''success'' None None
                  (new_bot 0 [] [])) = {IdStr ''7''}"
proof -
  have d: "\<not> store_reachable env_down (new_bot 0 [] [])"
    by (simp add: store_reachable_def env_down_def)
  have u: "store_reachable env_ok (new_bot 0 [] [])"
    by (simp add: store_reachable_def env_ok_def)
  show ?thesis
    using d u
      saveProcessedId_failure_keeps_seen_set[OF refl, of env_down "new_bot 0 [] []" "IdStr ''7''" None
        "Some ''123''" "''success''" None None]
      saveProcessedId_failure_keeps_seen_set[OF refl, of env_ok "new_bot 0 [] []" "IdStr ''7''" None
        "Some ''123''" "''success''" None None]
    by (simp add: new_bot_def)
qed

lemma filter_key_distinct:
  "distinct (map f xs) \<Longrightarrow> k \<in> set (map f xs) \<Longrightarrow> \<exists>x. filter (\<lambda>x. f x = k) xs = [x]"
proof (induction xs)
  case Nil then show ?case by simp
next
  case (Cons a xs)
  show ?case
  proof (cases "f a = k")
    case True
    with Cons.prems have "k \<notin> f ` set xs" by auto
    then have "filter (\<lambda>x. f x = k) xs = []" by (auto simp: filter_empty_conv)
    with True show ?thesis by simp
  next
    case False
    with Cons show ?thesis by auto
  qed
qed

lemma filter_key_absent:
  "k \<notin> set (map f xs) \<Longrightarrow> filter (\<lambda>x. f x = k) xs = []"
  by (auto simp: filter_empty_conv)

lemma upsert_row_keys:
  "map record_id (upsert_row now rid p r st c poi tbl) =
     (if rid \<in> set (map record_id tbl) then map record_id tbl else map record_id tbl @ [rid])"
  by (induction tbl) (auto simp: upsert_row_def)

lemma upsert_row_distinct:
  "distinct (map record_id tbl) \<Longrightarrow> distinct (map record_id (upsert_row now rid p r st c poi tbl))"
  by (simp add: upsert_row_keys)

lemma upsert_row_fresh:
  "rid \<notin> set (map record_id tbl) \<Longrightarrow>
   filter (\<lambda>x. record_id x = rid) (upsert_row now rid p r st c poi tbl) =
     [\<lparr> record_id = rid, processed_at = now, posted_tweet_id = p, reply_to_tweet_id = r,
         status = st, content_length = c, row_poi_transaction = poi, row_created_at = now,
         updated_at = now \<rparr>]"
  using filter_key_absent[of rid record_id tbl] by (simp add: upsert_row_def)

lemma upsert_row_existing:
  "rid \<in> set (map record_id tbl) \<Longrightarrow>
   filter (\<lambda>x. record_id x = rid) (upsert_row now rid p r st c poi tbl) =
     map (\<lambda>x. x\<lparr>posted_tweet_id := p, status := st, updated_at := now\<rparr>)
       (filter (\<lambda>x. record_id x = rid) tbl)"
proof -
  have "filter (\<lambda>x. record_id x = rid)
          (map (\<lambda>x. if record_id x = rid
                     then x\<lparr>posted_tweet_id := p, status := st, updated_at := now\<rparr> else x) t) =
        map (\<lambda>x. x\<lparr>posted_tweet_id := p, status := st, updated_at := now\<rparr>)
          (filter (\<lambda>x. record_id x = rid) t)" for t
    by (induction t) auto
  then show "rid \<in> set (map record_id tbl) \<Longrightarrow> ?thesis" by (simp add: upsert_row_def)
qed

lemma upsert_row_has_key: "rid \<in> set (map record_id (upsert_row now rid p r st c poi tbl))"
  by (simp add: upsert_row_keys)

text \<open>
  Claim C3.  Two calls of \<open>saveProcessedId\<close> with the same \<open>recordId\<close>, each reaching the
  store, on a ledger with unique keys: after each call there is exactly one row for the
  id, and the row after the second call is the row after the first with \<open>posted_tweet_id\<close>,
  \<open>status\<close> and \<open>updated_at\<close> overwritten and every other column, \<open>processed_at\<close> and
  \<open>created_at\<close> included, as it was.
\<close>

theorem saveProcessedId_twice_one_row:
  assumes "distinct (map record_id (processed_records s))"
    and "store_reachable e s"
    and "s1 = saveProcessedId e recordId p1 r1 st1 c1 poi1 s"
    and "processed_records s1' = processed_records s1"
    and "store_reachable e s1'"
    and "s2 = saveProcessedId e recordId p2 r2 st2 c2 poi2 s1'"
  shows "length (filter (\<lambda>x. record_id x = id_text recordId) (processed_records s1)) = 1 \<and>
         length (filter (\<lambda>x. record_id x = id_text recordId) (processed_records s2)) = 1 \<and>
         filter (\<lambda>x. record_id x = id_text recordId) (processed_records s2) =
           map (\<lambda>x. x\<lparr>posted_tweet_id := p2, status := st2, updated_at := clock s2\<rparr>)
             (filter (\<lambda>x. record_id x = id_text recordId) (processed_records s1))"
proof -
  have t1: "processed_records s1 =
      upsert_row (clock s1) (id_text recordId) p1 r1 st1 c1 poi1 (processed_records s)"
    unfolding assms(3) by (rule saveProcessedId_up(2)[OF assms(2)])
  have t2: "processed_records s2 =
      upsert_row (clock s2) (id_text recordId) p2 r2 st2 c2 poi2 (processed_records s1)"
    unfolding assms(6) assms(4)[symmetric] by (rule saveProcessedId_up(2)[OF assms(5)])
  have d1: "distinct (map record_id (processed_records s1))"
    unfolding t1 by (rule upsert_row_distinct[OF assms(1)])
  have k1: "id_text recordId \<in> set (map record_id (processed_records s1))"
    unfolding t1 by (rule upsert_row_has_key)
  obtain row where row: "filter (\<lambda>x. record_id x = id_text recordId) (processed_records s1) = [row]"
    using filter_key_distinct[OF d1 k1] by blast
  have "filter (\<lambda>x. record_id x = id_text recordId) (processed_records s2) =
      map (\<lambda>x. x\<lparr>posted_tweet_id := p2, status := st2, updated_at := clock s2\<rparr>)
        (filter (\<lambda>x. record_id x = id_text recordId) (processed_records s1))"
    unfolding t2 by (rule upsert_row_existing[OF k1])
  with row show ?thesis by simp
qed

lemma first_save_eval:
  "processed_records first_save =
     [\<lparr> record_id = ''7'', processed_at = 500, posted_tweet_id = None,
        reply_to_tweet_id = Some ''122'', status = ''skipped_tweet_not_accessible'',
        content_length = None, row_poi_transaction = None, row_created_at = 500,
        updated_at = 500 \<rparr>]"
  "db_calls first_save = 1" "clock first_save = 500"
  by (simp_all add: first_save_def saveProcessedId_def executeQuery_unroll env_ok_def run_query_def
        upsert_query_def upsert_row_def id_text_def new_bot_def sleep_def log_msg_def)

lemma second_save_eval:
  "processed_records second_save =
     [\<lparr> record_id = ''7'', processed_at = 500, posted_tweet_id = Some ''9000'',
        reply_to_tweet_id = Some ''122'', status = ''success'',
        content_length = None, row_poi_transaction = None, row_created_at = 500,
        updated_at = 1200 \<rparr>]"
  "clock second_save = 1200"
  by (simp_all add: second_save_def saveProcessedId_def executeQuery_unroll env_ok_def run_query_def
        upsert_query_def upsert_row_def id_text_def first_save_eval sleep_def log_msg_def)

theorem saveProcessedId_twice_witness:
  "distinct (map record_id (processed_records (sleep ''earlier'' 500 (new_bot 0 [] [])))) \<and>
   store_reachable env_ok (sleep ''earlier'' 500 (new_bot 0 [] [])) \<and>
   store_reachable env_ok (sleep ''later'' 700 first_save) \<and>
   processed_records second_save =
     [\<lparr> record_id = ''7'', processed_at = 500, posted_tweet_id = Some ''9000'',
        reply_to_tweet_id = Some ''122'', status = ''success'',
        content_length = None, row_poi_transaction = None, row_created_at = 500,
        updated_at = 1200 \<rparr>] \<and>
   length (filter (\<lambda>x. record_id x = ''7'') (processed_records second_save)) = 1"
proof -
  have h1: "distinct (map record_id (processed_records (sleep ''earlier'' 500 (new_bot 0 [] []))))"
    by (simp add: new_bot_def sleep_def)
  have h2: "store_reachable env_ok (sleep ''earlier'' 500 (new_bot 0 [] []))"
    by (simp add: store_reachable_def env_ok_def)
  have h3: "processed_records (sleep ''later'' 700 first_save) = processed_records first_save"
    by (simp add: sleep_def)
  have h4: "store_reachable env_ok (sleep ''later'' 700 first_save)"
    by (simp add: store_reachable_def env_ok_def)
  show ?thesis
    using saveProcessedId_twice_one_row[OF h1 h2 first_save_def h3 h4 second_save_def] h1 h2 h4
    by (simp add: second_save_eval id_text_def)
qed

lemma select_new_answers_cong:
  "lastCheckTime s' = lastCheckTime s \<Longrightarrow> twitter_answers s' = twitter_answers s \<Longrightarrow>
   fst (select_new_answers s') = fst (select_new_answers s)"
  by (simp add: select_new_answers_def)

lemma getNewRecords_up:
  assumes "store_reachable e s"
  shows "fst (getNewRecords e s) =
           filter (\<lambda>r. isValidRecord r \<and> id_fld r \<notin> processedIds s) (fst (select_new_answers s))"
proof -
  let ?s = "log_msg ''DEBUG'' ''Executing database query'' s"
  have "store_reachable e ?s" using assms by simp
  from executeQuery_up[OF this, of "''Main''" select_new_answers]
  obtain s0 where ex: "executeQuery e ''Main'' select_new_answers ?s = run_query select_new_answers s0"
    and "lastCheckTime s0 = lastCheckTime ?s" "processedIds s0 = processedIds ?s"
    and "twitter_answers s0 = twitter_answers ?s"
    by blast
  then have "lastCheckTime s0 = lastCheckTime s" "processedIds s0 = processedIds s"
    "twitter_answers s0 = twitter_answers s" by (simp_all add: log_msg_def)
  then show ?thesis
    by (simp add: getNewRecords_def ex run_query_def select_new_answers_def Let_def)
qed

lemma getNewRecords_down:
  "\<not> store_reachable e s \<Longrightarrow> fst (getNewRecords e s) = []"
  by (simp add: getNewRecords_def executeQuery_down)

lemma loadProcessedIds_up:
  assumes "store_reachable e s"
  shows "processedIds (loadProcessedIds e s) = IdStr ` record_id ` set (processed_records s)"
    and "lastCheckTime (loadProcessedIds e s) = lastCheckTime s"
    and "twitter_answers (loadProcessedIds e s) = twitter_answers s"
proof -
  from executeQuery_up[OF assms, of "''Railway''" select_record_ids]
  obtain s0 where ex: "executeQuery e ''Railway'' select_record_ids s = run_query select_record_ids s0"
    and "processed_records s0 = processed_records s" "lastCheckTime s0 = lastCheckTime s"
    "twitter_answers s0 = twitter_answers s"
    by blast
  then show "processedIds (loadProcessedIds e s) = IdStr ` record_id ` set (processed_records s)"
    and "lastCheckTime (loadProcessedIds e s) = lastCheckTime s"
    and "twitter_answers (loadProcessedIds e s) = twitter_answers s"
    by (simp_all add: loadProcessedIds_def run_query_def select_record_ids_def log_msg_def)
qed

text \<open>
  Claim C1, as amended.  When the source store answers within the three attempts, the
  candidate list of \<open>getNewRecords\<close> is exactly the fetched rows whose \<open>answer\<close> and
  \<open>tweet_id\<close> are present and non-empty after trimming white space and whose \<open>id\<close> is not
  a member of \<open>processedIds\<close>; \<open>poi_transaction\<close> is not looked at.  When the store does not
  answer, the list is empty.  After a load that reaches the ledger, \<open>processedIds\<close> holds
  every \<open>record_id\<close> of the ledger as a string, so a row persisted before a restart whose
  \<open>id\<close> is that string is excluded.
\<close>

theorem getNewRecords_candidates:
  "(store_reachable e s \<longrightarrow>
      fst (getNewRecords e s) =
        filter (\<lambda>r. (\<exists>a. answer r = Some a \<and> trim a \<noteq> []) \<and>
                    (\<exists>t. tweet_id r = Some t \<and> trim t \<noteq> []) \<and>
                    id_fld r \<notin> processedIds s)
          (fst (select_new_answers s))) \<and>
   (\<not> store_reachable e s \<longrightarrow> fst (getNewRecords e s) = []) \<and>
   (store_reachable e s0 \<longrightarrow>
      IdStr ` record_id ` set (processed_records s0) \<subseteq> processedIds (loadProcessedIds e s0))"
  by (simp add: getNewRecords_up getNewRecords_down loadProcessedIds_up isValidRecord_iff)

lemma store_reachable_env_ok [simp]: "store_reachable env_ok s"
  by (simp add: store_reachable_def env_ok_def)

lemma store_reachable_env_down [simp]: "\<not> store_reachable env_down s"
  by (simp add: store_reachable_def env_down_def)

lemma blank_bot_fetch: "fst (select_new_answers blank_bot) = [blank_row]"
  by (simp add: select_new_answers_def blank_bot_def new_bot_def blank_row_def)

lemma numeric_id_text: "id_text (IdNum 7) = ''7''"
  by code_simp

lemma numeric_restarted_bot_eval:
  "processedIds numeric_restarted_bot = {IdStr ''7''}"
  "fst (select_new_answers numeric_restarted_bot) = [numeric_row]"
proof -
  let ?s = "new_bot 100000000 [numeric_row] [seen_ledger_row]"
  show "processedIds numeric_restarted_bot = {IdStr ''7''}"
    unfolding numeric_restarted_bot_def
    by (simp add: loadProcessedIds_up(1) new_bot_def seen_ledger_row_def)
  have "fst (select_new_answers numeric_restarted_bot) = fst (select_new_answers ?s)"
    unfolding numeric_restarted_bot_def
    by (rule select_new_answers_cong) (simp_all add: loadProcessedIds_up)
  also have "\<dots> = [numeric_row]"
    by (simp add: select_new_answers_def new_bot_def numeric_row_def)
  finally show "fst (select_new_answers numeric_restarted_bot) = [numeric_row]" .
qed

text \<open>
  Claim C1 as stated fails twice.  A fetched row whose \<open>answer\<close> is one space has non-empty
  content, a non-empty target id and an unseen id, yet it is not a candidate.  And a row
  with the numeric id 7, persisted in the ledger as \<open>7\<close> with status \<open>success\<close>, is a
  candidate again after a restart, because the set loaded from the ledger holds the string.
\<close>

theorem getNewRecords_counterexample:
  "fst (select_new_answers blank_bot) = [blank_row] \<and>
   answer blank_row = Some '' '' \<and> tweet_id blank_row = Some ''123'' \<and>
   id_fld blank_row \<notin> processedIds blank_bot \<and>
   store_reachable env_ok blank_bot \<and>
   blank_row \<notin> set (fst (getNewRecords env_ok blank_bot)) \<and>
   id_fld numeric_row = IdNum 7 \<and>
   id_text (id_fld numeric_row) = record_id seen_ledger_row \<and>
   status seen_ledger_row = ''success'' \<and>
   numeric_restarted_bot =
     loadProcessedIds env_ok (new_bot 100000000 [numeric_row] [seen_ledger_row]) \<and>
   fst (getNewRecords env_ok numeric_restarted_bot) = [numeric_row]"
proof -
  have "\<not> isValidRecord blank_row"
    by (simp add: isValidRecord_def blank_def blank_row_def trim_def is_ws_def)
  then have "fst (getNewRecords env_ok blank_bot) = []"
    by (simp add: getNewRecords_up blank_bot_fetch)
  moreover have "id_fld blank_row \<notin> processedIds blank_bot"
    by (simp add: blank_bot_def new_bot_def)
  moreover have "answer blank_row = Some '' ''" "tweet_id blank_row = Some ''123''"
    by (simp_all add: blank_row_def)
  moreover have "isValidRecord numeric_row"
    by (simp add: isValidRecord_def blank_def numeric_row_def trim_def is_ws_def)
  then have "fst (getNewRecords env_ok numeric_restarted_bot) = [numeric_row]"
    by (simp add: getNewRecords_up numeric_restarted_bot_eval) (simp add: numeric_row_def)
  moreover have "id_text (id_fld numeric_row) = record_id seen_ledger_row"
    by (simp add: numeric_row_def seen_ledger_row_def numeric_id_text)
  ultimately show ?thesis
    by (simp add: blank_bot_fetch numeric_restarted_bot_def)
      (simp add: numeric_row_def seen_ledger_row_def)
qed

lemma restarted_bot_eval:
  "processedIds restarted_bot = {IdStr ''7''}"
  "fst (select_new_answers restarted_bot) = [fresh_row, blank_row, seen_row]"
proof -
  let ?s = "new_bot 100000000 [seen_row, fresh_row, blank_row] [seen_ledger_row]"
  show "processedIds restarted_bot = {IdStr ''7''}"
    unfolding restarted_bot_def
    by (simp add: loadProcessedIds_up(1) new_bot_def seen_ledger_row_def)
  have "fst (select_new_answers restarted_bot) = fst (select_new_answers ?s)"
    unfolding restarted_bot_def
    by (rule select_new_answers_cong) (simp_all add: loadProcessedIds_up)
  also have "\<dots> = [fresh_row, blank_row, seen_row]"
    by (simp add: select_new_answers_def new_bot_def seen_row_def fresh_row_def blank_row_def)
  finally show "fst (select_new_answers restarted_bot) = [fresh_row, blank_row, seen_row]" .
qed

theorem getNewRecords_candidates_witness:
  "store_reachable env_ok restarted_bot \<and>
   processedIds restarted_bot = {IdStr ''7''} \<and>
   record_id seen_ledger_row = ''7'' \<and> id_fld seen_row = IdStr ''7'' \<and>
   poi_transaction fresh_row = None \<and>
   fst (getNewRecords env_ok restarted_bot) = [fresh_row] \<and>
   \<not> store_reachable env_down blank_bot \<and>
   fst (getNewRecords env_down blank_bot) = []"
proof -
  have v: "trim ''New answer'' \<noteq> []" "trim ''124'' \<noteq> []" "trim '' '' = []"
    by (simp_all add: trim_def is_ws_def)
  have "fst (getNewRecords env_ok restarted_bot) = [fresh_row]"
    using getNewRecords_candidates[of env_ok restarted_bot restarted_bot] v
    by (simp add: restarted_bot_eval fresh_row_def blank_row_def seen_row_def)
  moreover have "fst (getNewRecords env_down blank_bot) = []"
    using getNewRecords_candidates[of env_down blank_bot blank_bot] by simp
  ultimately show ?thesis
    by (simp add: restarted_bot_eval fresh_row_def seen_row_def seen_ledger_row_def)
qed

section \<open>Delivery engine: properties\<close>

lemma ambient_outcome_view: "ambient outcome_view"
  by (simp add: ambient_def outcome_view_def core_view_def log_msg_def sleep_def upd_stats_def
        backoff_delays_def)

lemma validateTweet_view:
  "validateTweet e t s = Some (b, s1) \<Longrightarrow> outcome_view s1 = outcome_view s"
  using ambient_validateTweet[OF ambient_outcome_view, of e t s "(b, s1)"] by simp

lemma view_log [simp]: "outcome_view (log_msg l m s) = outcome_view s"
  by (rule ambient_log[OF ambient_outcome_view])

lemma postToTwitter_unreachable:
  assumes "validateTweet e (tweet_id r) (log_msg ''DEBUG'' ''Validating original tweet exists'' s)
             = Some (False, s1)"
  shows "postToTwitter e r k s =
           Some (None,
             saveProcessedId e (id_fld r) None (tweet_id r) ''skipped_tweet_not_accessible'' None
               (poi_transaction r)
               (upd_stats (\<lambda>st. st\<lparr>skippedRecords := skippedRecords st + 1\<rparr>)
                  (log_msg ''WARN'' ''Original tweet not accessible - SKIPPING'' s1)))"
  by (subst postToTwitter.simps) (simp add: assms)

lemma upsert_row_written:
  "rid \<in> record_id ` set (upsert_row now rid p r st c poi tbl)"
  "row \<in> set (upsert_row now rid p r st c poi tbl) \<Longrightarrow> record_id row = rid \<Longrightarrow>
     status row = st \<and> posted_tweet_id row = p"
proof -
  show "rid \<in> record_id ` set (upsert_row now rid p r st c poi tbl)"
    using upsert_row_has_key[of rid now p r st c poi tbl] by simp
  assume a: "row \<in> set (upsert_row now rid p r st c poi tbl)" and b: "record_id row = rid"
  show "status row = st \<and> posted_tweet_id row = p"
  proof (cases "rid \<in> set (map record_id tbl)")
    case True
    with a obtain x where "x \<in> set tbl"
      "row = (if record_id x = rid
              then x\<lparr>posted_tweet_id := p, status := st, updated_at := now\<rparr> else x)"
      by (auto simp: upsert_row_def)
    with b show ?thesis by (cases "record_id x = rid") auto
  next
    case False
    let ?new = "\<lparr> record_id = rid, processed_at = now, posted_tweet_id = p,
        reply_to_tweet_id = r, status = st, content_length = c, row_poi_transaction = poi,
        row_created_at = now, updated_at = now \<rparr>"
    from a False have "row \<in> set tbl \<or> row = ?new" by (auto simp: upsert_row_def)
    moreover have "row \<notin> set tbl" using False b by auto
    ultimately have e: "row = ?new" by blast
    show ?thesis using arg_cong[OF e, of status] arg_cong[OF e, of posted_tweet_id] by simp
  qed
qed

lemma store_reachable_view:
  "core_view s' = core_view s \<Longrightarrow> store_reachable e s' = store_reachable e s"
  by (simp add: core_view_def store_reachable_def)

lemma view_skip [simp]:
  "tweets_sent (upd_stats f s) = tweets_sent s"
  "processed_records (upd_stats f s) = processed_records s"
  "processedIds (upd_stats f s) = processedIds s"
  "db_calls (upd_stats f s) = db_calls s"
  "lastCheckTime (upd_stats f s) = lastCheckTime s"
  "backoff_delays (upd_stats f s) = backoff_delays s"
  "stats (upd_stats f s) = f (stats s)"
  "tweets_sent (log_msg l m s) = tweets_sent s"
  "processed_records (log_msg l m s) = processed_records s"
  "processedIds (log_msg l m s) = processedIds s"
  "db_calls (log_msg l m s) = db_calls s"
  "lastCheckTime (log_msg l m s) = lastCheckTime s"
  "backoff_delays (log_msg l m s) = backoff_delays s"
  "stats (log_msg l m s) = stats s"
  "logs (log_msg l m s) = logs s @ [(l, m)]"
  by (simp_all add: upd_stats_def log_msg_def backoff_delays_def)

text \<open>
  Claim C4, as amended.  When \<open>validateTweet\<close> answers that the target is not accessible,
  \<open>postToTwitter\<close> returns \<open>null\<close> without any call of the tweet endpoint.  When the
  ledger write reaches the store, the id is in \<open>processedIds\<close> and the ledger holds a row
  for it, every such row with status \<open>skipped_tweet_not_accessible\<close> and no posted id.
  When all three attempts of the write fail, the ledger and \<open>processedIds\<close> stay as they
  were.
\<close>

theorem unreachable_target_skipped:
  assumes "validateTweet e (tweet_id r) (log_msg ''DEBUG'' ''Validating original tweet exists'' s)
             = Some (False, s1)"
  shows "\<exists>s'. postToTwitter e r k s = Some (None, s') \<and>
           tweets_sent s' = tweets_sent s \<and>
           (store_reachable e s \<longrightarrow>
              id_fld r \<in> processedIds s' \<and>
              id_text (id_fld r) \<in> record_id ` set (processed_records s') \<and>
              (\<forall>row \<in> set (processed_records s').
                 record_id row = id_text (id_fld r) \<longrightarrow>
                 status row = ''skipped_tweet_not_accessible'' \<and> posted_tweet_id row = None)) \<and>
           (\<not> store_reachable e s \<longrightarrow>
              processedIds s' = processedIds s \<and> processed_records s' = processed_records s)"
proof -
  let ?s2 = "upd_stats (\<lambda>st. st\<lparr>skippedRecords := skippedRecords st + 1\<rparr>)
               (log_msg ''WARN'' ''Original tweet not accessible - SKIPPING'' s1)"
  let ?s' = "saveProcessedId e (id_fld r) None (tweet_id r) ''skipped_tweet_not_accessible'' None
               (poi_transaction r) ?s2"
  have v: "outcome_view s1 = outcome_view s"
    using validateTweet_view[OF assms] by simp
  then have f: "tweets_sent ?s2 = tweets_sent s" "processed_records ?s2 = processed_records s"
    "processedIds ?s2 = processedIds s" "db_calls ?s2 = db_calls s"
    by (simp_all add: outcome_view_def core_view_def)
  then have sr: "store_reachable e ?s2 = store_reachable e s"
    by (simp add: store_reachable_def)
  have p: "postToTwitter e r k s = Some (None, ?s')"
    by (rule postToTwitter_unreachable[OF assms])
  show ?thesis
  proof (cases "store_reachable e s")
    case True
    then have u: "store_reachable e ?s2" using sr by simp
    have "processedIds ?s' = insert (id_fld r) (processedIds ?s2)"
      and t: "processed_records ?s' =
           upsert_row (clock ?s') (id_text (id_fld r)) None (tweet_id r) ''skipped_tweet_not_accessible'' None
             (poi_transaction r) (processed_records ?s2)"
      and "tweets_sent ?s' = tweets_sent ?s2"
      by (rule saveProcessedId_up[OF u])+
    then show ?thesis
      using p True f
        upsert_row_written(1)[where rid = "id_text (id_fld r)" and now = "clock ?s'" and p = None
          and r = "tweet_id r" and st = "''skipped_tweet_not_accessible''" and c = None
          and poi = "poi_transaction r" and tbl = "processed_records ?s2"]
        upsert_row_written(2)[where rid = "id_text (id_fld r)" and now = "clock ?s'" and p = None
          and r = "tweet_id r" and st = "''skipped_tweet_not_accessible''" and c = None
          and poi = "poi_transaction r" and tbl = "processed_records ?s2"]
      by (intro exI[of _ ?s']) (simp add: t)
  next
    case False
    then have u: "\<not> store_reachable e ?s2" using sr by simp
    have "processedIds ?s' = processedIds ?s2" "processed_records ?s' = processed_records ?s2"
      "tweets_sent ?s' = tweets_sent ?s2"
      by (rule saveProcessedId_down[OF u])+
    then show ?thesis using p False f by (intro exI[of _ ?s']) simp
  qed
qed

lemma validateTweet_fails:
  assumes "\<forall>n. lookup_response e n = LookupErr err" "\<not> is_rate_limit_error err"
  shows "\<exists>s1. validateTweet e t s = Some (False, s1)"
proof -
  obtain chk s1 where cr: "checkRateLimit ''lookup'' s = (chk, s1)" by (cases "checkRateLimit ''lookup'' s")
  show ?thesis
    using assms by (subst validateTweet.simps) (simp add: cr Let_def)
qed

lemma not_found_not_rate_limit: "\<not> is_rate_limit_error not_found_error"
  by (simp add: is_rate_limit_error_def not_found_error_def)

theorem unreachable_target_witness:
  "store_reachable env_target_gone gone_bot \<and>
   fst (the (postToTwitter env_target_gone gone_row 0 gone_bot)) = None \<and>
   id_fld gone_row \<in> processedIds (snd (the (postToTwitter env_target_gone gone_row 0 gone_bot))) \<and>
   id_text (id_fld gone_row) \<in>
     record_id ` set (processed_records (snd (the (postToTwitter env_target_gone gone_row 0 gone_bot)))) \<and>
   tweets_sent (snd (the (postToTwitter env_target_gone gone_row 0 gone_bot))) = []"
proof -
  have l: "\<forall>n. lookup_response env_target_gone n = LookupErr not_found_error"
    by (simp add: env_target_gone_def)
  obtain s1 where v: "validateTweet env_target_gone (tweet_id gone_row)
      (log_msg ''DEBUG'' ''Validating original tweet exists'' gone_bot) = Some (False, s1)"
    using validateTweet_fails[OF l not_found_not_rate_limit] by blast
  have r: "store_reachable env_target_gone gone_bot"
    by (simp add: store_reachable_def env_target_gone_def)
  have t: "tweets_sent gone_bot = []" by (simp add: gone_bot_def new_bot_def)
  from unreachable_target_skipped[OF v, of 0] r t show ?thesis by auto
qed

lemma gone_bot_store_down: "\<not> store_reachable env_target_gone_db_down s"
  by (simp add: store_reachable_def env_target_gone_db_down_def)

text \<open>
  Claim C4 as stated fails: with the store down the lookup failure leaves no ledger row and
  the id outside \<open>processedIds\<close>; and with the store up the status written is
  \<open>skipped_tweet_not_accessible\<close>.
\<close>

theorem unreachable_target_counterexample:
  "postToTwitter env_target_gone_db_down gone_row 0 gone_bot \<noteq> None \<and>
   processed_records (snd (the (postToTwitter env_target_gone_db_down gone_row 0 gone_bot))) = [] \<and>
   id_fld gone_row \<notin>
     processedIds (snd (the (postToTwitter env_target_gone_db_down gone_row 0 gone_bot))) \<and>
   map status (processed_records (snd (the (postToTwitter env_target_gone gone_row 0 gone_bot))))
     = [''skipped_tweet_not_accessible'']"
proof -
  have l': "\<forall>n. lookup_response env_target_gone n = LookupErr not_found_error"
    by (simp add: env_target_gone_def)
  obtain s1' where v': "validateTweet env_target_gone (tweet_id gone_row)
      (log_msg ''DEBUG'' ''Validating original tweet exists'' gone_bot) = Some (False, s1')"
    using validateTweet_fails[OF l' not_found_not_rate_limit] by blast
  have "outcome_view s1' = outcome_view gone_bot"
    using validateTweet_view[OF v'] by simp
  then have e': "processed_records s1' = []"
    by (simp add: outcome_view_def core_view_def gone_bot_def new_bot_def)
  have u': "store_reachable env_target_gone s" for s
    by (simp add: store_reachable_def env_target_gone_def)
  have ok: "map status (processed_records (snd (the (postToTwitter env_target_gone gone_row 0 gone_bot))))
     = [''skipped_tweet_not_accessible'']"
    by (simp add: postToTwitter_unreachable[OF v'] saveProcessedId_up(2)[OF u'] e' upsert_row_def)
  have l: "\<forall>n. lookup_response env_target_gone_db_down n = LookupErr not_found_error"
    by (simp add: env_target_gone_db_down_def)
  obtain s1 where v: "validateTweet env_target_gone_db_down (tweet_id gone_row)
      (log_msg ''DEBUG'' ''Validating original tweet exists'' gone_bot) = Some (False, s1)"
    using validateTweet_fails[OF l not_found_not_rate_limit] by blast
  have w: "outcome_view s1 = outcome_view gone_bot"
    using validateTweet_view[OF v] by simp
  have "processed_records s1 = []" "processedIds s1 = {}"
    using w by (simp_all add: outcome_view_def core_view_def gone_bot_def new_bot_def)
  then show ?thesis
    using ok
    by (simp add: postToTwitter_unreachable[OF v] saveProcessedId_down[OF gone_bot_store_down])
qed

lemma clean_trimmed: "trim (cleanAnswerForTwitter a) = cleanAnswerForTwitter a"
  by (simp add: cleanAnswerForTwitter_def trim_idem)

lemma attempt_post_empty:
  "answer r = Some a \<Longrightarrow> cleanAnswerForTwitter a = [] \<Longrightarrow>
   attempt_post e r s =
     (Inr None,
      upd_stats (\<lambda>st. st\<lparr>skippedRecords := skippedRecords st + 1\<rparr>)
        (log_msg ''WARN'' ''No content left after cleaning scientific papers - SKIPPING'' s))"
  by (simp add: attempt_post_def)

text \<open>
  Claim C8, as amended.  When validation has passed and the cleaned content is empty,
  \<open>postToTwitter\<close> returns \<open>null\<close> without calling the tweet endpoint; the skipped counter
  goes up by one and the success, failure and error counters stay; the ledger and
  \<open>processedIds\<close> are unchanged.
\<close>

theorem empty_after_cleaning_skipped:
  assumes "validateTweet e (tweet_id r) (log_msg ''DEBUG'' ''Validating original tweet exists'' s)
             = Some (True, s1)"
    and "answer r = Some a"
    and "cleanAnswerForTwitter a = []"
  shows "\<exists>s'. postToTwitter e r k s = Some (None, s') \<and>
           tweets_sent s' = tweets_sent s \<and>
           processed_records s' = processed_records s \<and>
           processedIds s' = processedIds s \<and>
           skippedRecords (stats s') = skippedRecords (stats s) + 1 \<and>
           successfulPosts (stats s') = successfulPosts (stats s) \<and>
           failedPosts (stats s') = failedPosts (stats s) \<and>
           errors (stats s') = errors (stats s)"
proof -
  let ?s' = "upd_stats (\<lambda>st. st\<lparr>skippedRecords := skippedRecords st + 1\<rparr>)
        (log_msg ''WARN'' ''No content left after cleaning scientific papers - SKIPPING'' s1)"
  have v: "outcome_view s1 = outcome_view s"
    using validateTweet_view[OF assms(1)] by simp
  have p: "postToTwitter e r k s = Some (None, ?s')"
    by (subst postToTwitter.simps) (simp add: assms(1) attempt_post_empty[OF assms(2,3)])
  show ?thesis
    using v by (intro exI[of _ ?s']) (simp add: p outcome_view_def core_view_def)
qed

lemma papers_clean: "cleanAnswerForTwitter ''Science papers:'' = []"
  by code_simp

theorem empty_after_cleaning_witness:
  "cleanAnswerForTwitter ''Science papers:'' = [] \<and>
   isValidRecord papers_row \<and>
   fst (the (postToTwitter env_ok papers_row 0 papers_bot)) = None \<and>
   tweets_sent (snd (the (postToTwitter env_ok papers_row 0 papers_bot))) = [] \<and>
   processed_records (snd (the (postToTwitter env_ok papers_row 0 papers_bot))) = [] \<and>
   processedIds (snd (the (postToTwitter env_ok papers_row 0 papers_bot))) = {} \<and>
   skippedRecords (stats (snd (the (postToTwitter env_ok papers_row 0 papers_bot)))) = 1"
proof -
  have l: "\<forall>n. \<exists>h. lookup_response env_ok n = LookupOk h" by (simp add: env_ok_def)
  obtain s1 where v: "validateTweet env_ok (tweet_id papers_row)
      (log_msg ''DEBUG'' ''Validating original tweet exists'' papers_bot) = Some (True, s1)"
    using validateTweet_ok[OF l] by blast
  have a: "answer papers_row = Some ''Science papers:''" by (simp add: papers_row_def)
  have i: "isValidRecord papers_row"
    by (simp add: isValidRecord_def blank_def papers_row_def trim_def is_ws_def)
  from empty_after_cleaning_skipped[OF v a papers_clean, of 0] i show ?thesis
    by (auto simp: papers_clean papers_bot_def new_bot_def)
qed

lemma view_parts:
  "outcome_view s' = outcome_view s \<Longrightarrow>
     tweets_sent s' = tweets_sent s \<and> tweet_calls s' = tweet_calls s \<and>
     backoff_delays s' = backoff_delays s \<and> core_view s' = core_view s"
  by (simp add: outcome_view_def)

lemma core_view_log [simp]: "core_view (log_msg l m s) = core_view s"
  by (simp add: core_view_def)

lemma core_view_update [simp]: "core_view (updateRateLimitInfo ep h s) = core_view s"
  using ambient_update[OF ambient_outcome_view, of ep h s] by (simp add: outcome_view_def)

lemma backoff_update [simp]: "backoff_delays (updateRateLimitInfo ep h s) = backoff_delays s"
  using ambient_update[OF ambient_outcome_view, of ep h s] by (simp add: outcome_view_def)

lemma tweets_update [simp]: "tweets_sent (updateRateLimitInfo ep h s) = tweets_sent s"
  using ambient_update[OF ambient_outcome_view, of ep h s] by (simp add: outcome_view_def)

lemma attempt_post_error:
  assumes "answer r = Some a" "cleanAnswerForTwitter a \<noteq> []"
    and "\<forall>n. \<exists>err. tweet_response e n = TweetErr err \<and> P err"
  shows "\<exists>err s2. attempt_post e r s = (Inl err, s2) \<and> P err \<and>
           length (tweets_sent s2) = length (tweets_sent s) + 1 \<and>
           backoff_delays s2 = backoff_delays s \<and> core_view s2 = core_view s"
proof -
  obtain chk s1 where cr: "checkRateLimit ''tweets'' s = (chk, s1)"
    by (cases "checkRateLimit ''tweets'' s")
  define s3 where "s3 = log_msg ''INFO'' ''Attempting to post reply''
      (if \<not> canProceed chk then waitForRateLimit (waitTime chk) s1 else s1)"
  have "outcome_view s1 = outcome_view s"
    using ambient_check[OF ambient_outcome_view, of "''tweets''" s] cr by simp
  then have v3: "outcome_view s3 = outcome_view s"
    by (simp add: s3_def ambient_waitFor[OF ambient_outcome_view])
  obtain err where err: "tweet_response e (tweet_calls s3) = TweetErr err" "P err"
    using assms(3) by blast
  define fin where "fin = (if length (trim (cleanAnswerForTwitter a)) > 20000
      then take 19995 (trim (cleanAnswerForTwitter a)) @ ''...''
      else trim (cleanAnswerForTwitter a))"
  have "attempt_post e r s =
      (Inl err, s3\<lparr>tweets_sent := tweets_sent s3 @ [(fin, tweet_id r)],
                   tweet_calls := tweet_calls s3 + 1\<rparr>)"
    using assms(1,2) err(1)
    by (simp add: attempt_post_def cr Let_def s3_def fin_def clean_trimmed)
  moreover have "core_view (s3\<lparr>tweets_sent := tweets_sent s3 @ [(fin, tweet_id r)],
                   tweet_calls := tweet_calls s3 + 1\<rparr>) = core_view s"
    and "backoff_delays (s3\<lparr>tweets_sent := tweets_sent s3 @ [(fin, tweet_id r)],
                   tweet_calls := tweet_calls s3 + 1\<rparr>) = backoff_delays s"
    and "length (tweets_sent (s3\<lparr>tweets_sent := tweets_sent s3 @ [(fin, tweet_id r)],
                   tweet_calls := tweet_calls s3 + 1\<rparr>)) = length (tweets_sent s) + 1"
    using view_parts[OF v3] by (simp_all add: core_view_def backoff_delays_def)
  ultimately show ?thesis using err(2) by blast
qed

lemma backoff_delay_values:
  "backoff_delay 0 = 5000" "backoff_delay 1 = 10000" "backoff_delay 2 = 20000"
  "backoff_delay (Suc 0) = 10000" "backoff_delay (Suc (Suc 0)) = 20000"
  by (simp_all add: backoff_delay_def config_def)

lemma retry_step:
  assumes "\<forall>n. \<exists>h. lookup_response e n = LookupOk h"
    and "\<forall>n. \<exists>err. tweet_response e n = TweetErr err \<and> (is_rate_limit_error err \<and> \<not> target_gone err)"
    and "answer r = Some a" "cleanAnswerForTwitter a \<noteq> []"
    and "k < 3"
  shows "\<exists>s''. postToTwitter e r k s = postToTwitter e r (Suc k) s'' \<and>
           length (tweets_sent s'') = length (tweets_sent s) + 1 \<and>
           backoff_delays s'' = backoff_delays s @ [backoff_delay k] \<and>
           core_view s'' = core_view s"
proof -
  let ?s0 = "log_msg ''DEBUG'' ''Validating original tweet exists'' s"
  obtain s1 where v: "validateTweet e (tweet_id r) ?s0 = Some (True, s1)"
    using validateTweet_ok[OF assms(1)] by blast
  have v1: "outcome_view s1 = outcome_view s" using validateTweet_view[OF v] by simp
  obtain err s2 where ap: "attempt_post e r s1 = (Inl err, s2)"
    and rl: "is_rate_limit_error err \<and> \<not> target_gone err"
    and l2: "length (tweets_sent s2) = length (tweets_sent s1) + 1"
    and b2: "backoff_delays s2 = backoff_delays s1" and c2: "core_view s2 = core_view s1"
    using attempt_post_error[OF assms(3,4,2), of s1] by blast
  define s3 where "s3 = (case err_headers err of None \<Rightarrow> s2
                         | Some h \<Rightarrow> updateRateLimitInfo ''tweets'' (Some h) s2)"
  define s'' where "s'' = sleep ''backoff'' (backoff_delay k)
      (log_msg ''INFO'' ''Retrying after rate limit backoff''
         (log_msg ''WARN'' ''Rate limit hit during tweet posting'' s3))"
  have f3: "length (tweets_sent s3) = length (tweets_sent s2)"
    "backoff_delays s3 = backoff_delays s2" "core_view s3 = core_view s2"
    by (simp_all add: s3_def split: option.splits)
  have "postToTwitter e r k s = postToTwitter e r (Suc k) s''"
    using rl assms(5)
    by (subst postToTwitter.simps) (simp add: v ap Let_def s3_def s''_def config_def)
  moreover have "length (tweets_sent s'') = length (tweets_sent s) + 1"
    using f3 l2 view_parts[OF v1] by (simp add: s''_def sleep_def log_msg_def)
  moreover have "backoff_delays s'' = backoff_delays s @ [backoff_delay k]"
    using f3 b2 view_parts[OF v1] by (simp add: s''_def sleep_def log_msg_def backoff_delays_def)
  moreover have "core_view s'' = core_view s"
    using f3 c2 view_parts[OF v1] by (simp add: s''_def sleep_def log_msg_def core_view_def)
  ultimately show ?thesis by blast
qed

lemma retry_last:
  assumes "\<forall>n. \<exists>h. lookup_response e n = LookupOk h"
    and "\<forall>n. \<exists>err. tweet_response e n = TweetErr err \<and> (is_rate_limit_error err \<and> \<not> target_gone err)"
    and "answer r = Some a" "cleanAnswerForTwitter a \<noteq> []"
  shows "\<exists>s'. postToTwitter e r 3 s = Some (None, s') \<and>
           length (tweets_sent s') = length (tweets_sent s) + 1 \<and>
           backoff_delays s' = backoff_delays s \<and>
           processed_records s' = processed_records s \<and> processedIds s' = processedIds s \<and>
           failedPosts (stats s') = failedPosts (stats s) + 1 \<and>
           successfulPosts (stats s') = successfulPosts (stats s) \<and>
           last (logs s') = (''ERROR'', ''Reply failed for unknown reason'')"
proof -
  let ?s0 = "log_msg ''DEBUG'' ''Validating original tweet exists'' s"
  obtain s1 where v: "validateTweet e (tweet_id r) ?s0 = Some (True, s1)"
    using validateTweet_ok[OF assms(1)] by blast
  have v1: "outcome_view s1 = outcome_view s" using validateTweet_view[OF v] by simp
  obtain err s2 where ap: "attempt_post e r s1 = (Inl err, s2)"
    and rl: "is_rate_limit_error err \<and> \<not> target_gone err"
    and l2: "length (tweets_sent s2) = length (tweets_sent s1) + 1"
    and b2: "backoff_delays s2 = backoff_delays s1" and c2: "core_view s2 = core_view s1"
    using attempt_post_error[OF assms(3,4,2), of s1] by blast
  define s3 where "s3 = (case err_headers err of None \<Rightarrow> s2
                         | Some h \<Rightarrow> updateRateLimitInfo ''tweets'' (Some h) s2)"
  define s' where "s' = post_failed e r err
      (log_msg ''ERROR'' ''Max retries reached for rate limited tweet''
         (log_msg ''WARN'' ''Rate limit hit during tweet posting'' s3))"
  have f3: "length (tweets_sent s3) = length (tweets_sent s2)"
    "backoff_delays s3 = backoff_delays s2" "core_view s3 = core_view s2"
    by (simp_all add: s3_def split: option.splits)
  have p: "postToTwitter e r 3 s = Some (None, s')"
    using rl by (subst postToTwitter.simps) (simp add: v ap Let_def s3_def s'_def config_def)
  have c: "core_view s3 = core_view s" "backoff_delays s3 = backoff_delays s"
    "length (tweets_sent s3) = length (tweets_sent s) + 1"
    using f3 l2 b2 c2 view_parts[OF v1] by simp_all
  have "length (tweets_sent s') = length (tweets_sent s) + 1"
    "backoff_delays s' = backoff_delays s"
    "processed_records s' = processed_records s" "processedIds s' = processedIds s"
    "failedPosts (stats s') = failedPosts (stats s) + 1"
    "successfulPosts (stats s') = successfulPosts (stats s)"
    "last (logs s') = (''ERROR'', ''Reply failed for unknown reason'')"
    using rl c by (simp_all add: s'_def post_failed_def Let_def core_view_def)
  with p show ?thesis by blast
qed

text \<open>
  Claim C5, as amended.  When validation passes and the tweet endpoint answers every call
  with a rate-limit error that does not carry the signature of a deleted target,
  \<open>postToTwitter\<close> calls the endpoint \<open>1 + maxRetries\<close> times, waits
  \<open>min (retryDelayMs * multiplier ^ attempt) maxDelay\<close> before retry \<open>attempt = 0, 1, 2\<close>,
  that is 5000, 10000 and 20000 ms, then returns \<open>null\<close> as failed, and leaves the ledger
  and \<open>processedIds\<close> as they were.
\<close>

theorem rate_limit_retries_exhausted:
  assumes "\<forall>n. \<exists>h. lookup_response e n = LookupOk h"
    and "\<forall>n. \<exists>err. tweet_response e n = TweetErr err \<and> (is_rate_limit_error err \<and> \<not> target_gone err)"
    and "answer r = Some a" "cleanAnswerForTwitter a \<noteq> []"
  shows "\<exists>s'. postToTwitter e r 0 s = Some (None, s') \<and>
           backoff_delays s' =
             backoff_delays s @
             map (\<lambda>attempt. min (retryDelayMs config * rateLimitBackoffMultiplier config ^ attempt)
                                 (maxDelayBetweenPosts config))
               [0..<maxRetries config] \<and>
           map (\<lambda>attempt. min (retryDelayMs config * rateLimitBackoffMultiplier config ^ attempt)
                               (maxDelayBetweenPosts config))
             [0..<maxRetries config] = [5000, 10000, 20000] \<and>
           length (tweets_sent s') = length (tweets_sent s) + 1 + maxRetries config \<and>
           processed_records s' = processed_records s \<and>
           processedIds s' = processedIds s \<and>
           failedPosts (stats s') = failedPosts (stats s) + 1 \<and>
           successfulPosts (stats s') = successfulPosts (stats s) \<and>
           last (logs s') = (''ERROR'', ''Reply failed for unknown reason'')"
proof -
  obtain sa where a: "postToTwitter e r 0 s = postToTwitter e r (Suc 0) sa"
    "length (tweets_sent sa) = length (tweets_sent s) + 1"
    "backoff_delays sa = backoff_delays s @ [backoff_delay 0]" "core_view sa = core_view s"
    using retry_step[OF assms, of 0 s] by auto
  obtain sb where b: "postToTwitter e r (Suc 0) sa = postToTwitter e r (Suc (Suc 0)) sb"
    "length (tweets_sent sb) = length (tweets_sent sa) + 1"
    "backoff_delays sb = backoff_delays sa @ [backoff_delay (Suc 0)]" "core_view sb = core_view sa"
    using retry_step[OF assms, of "Suc 0" sa] by auto
  obtain sc where c: "postToTwitter e r (Suc (Suc 0)) sb = postToTwitter e r (Suc (Suc (Suc 0))) sc"
    "length (tweets_sent sc) = length (tweets_sent sb) + 1"
    "backoff_delays sc = backoff_delays sb @ [backoff_delay (Suc (Suc 0))]"
    "core_view sc = core_view sb"
    using retry_step[OF assms, of "Suc (Suc 0)" sb] by auto
  obtain s' where d: "postToTwitter e r 3 sc = Some (None, s')"
    "length (tweets_sent s') = length (tweets_sent sc) + 1"
    "backoff_delays s' = backoff_delays sc"
    "processed_records s' = processed_records sc" "processedIds s' = processedIds sc"
    "failedPosts (stats s') = failedPosts (stats sc) + 1"
    "successfulPosts (stats s') = successfulPosts (stats sc)"
    "last (logs s') = (''ERROR'', ''Reply failed for unknown reason'')"
    using retry_last[OF assms, of sc] by auto
  have cv: "core_view sc = core_view s" using a(4) b(4) c(4) by simp
  have delays: "map (\<lambda>attempt. min (retryDelayMs config * rateLimitBackoffMultiplier config ^ attempt)
                               (maxDelayBetweenPosts config))
             [0..<maxRetries config] = [5000, 10000, 20000]"
    by (simp add: config_def numeral_3_eq_3)
  have run: "postToTwitter e r 0 s = Some (None, s')"
    using a(1) b(1) c(1) d(1) by (simp add: numeral_3_eq_3)
  have "backoff_delays s' = backoff_delays s @ [5000, 10000, 20000]"
    using a(3) b(3) c(3) d(3) by (simp add: backoff_delay_values)
  moreover have "length (tweets_sent s') = length (tweets_sent s) + 1 + maxRetries config"
    using a(2) b(2) c(2) d(2) by (simp add: config_def)
  moreover have "processed_records s' = processed_records s" "processedIds s' = processedIds s"
    "failedPosts (stats s') = failedPosts (stats s) + 1"
    "successfulPosts (stats s') = successfulPosts (stats s)"
    using cv d(4-7) by (simp_all add: core_view_def)
  ultimately show ?thesis using run delays d(8) by (intro exI[of _ s']) simp
qed

lemma hello_clean: "cleanAnswerForTwitter ''Hello'' \<noteq> []"
  by code_simp

lemma rate_limit_error_class:
  "is_rate_limit_error rate_limit_error \<and> \<not> target_gone rate_limit_error"
  by code_simp

theorem rate_limit_retries_witness:
  "answer gone_row = Some ''Hello'' \<and> cleanAnswerForTwitter ''Hello'' \<noteq> [] \<and>
   is_rate_limit_error rate_limit_error \<and>
   fst (the (postToTwitter env_rate_limited gone_row 0 gone_bot)) = None \<and>
   backoff_delays (snd (the (postToTwitter env_rate_limited gone_row 0 gone_bot)))
     = [5000, 10000, 20000] \<and>
   length (tweets_sent (snd (the (postToTwitter env_rate_limited gone_row 0 gone_bot)))) = 4 \<and>
   processed_records (snd (the (postToTwitter env_rate_limited gone_row 0 gone_bot))) = [] \<and>
   processedIds (snd (the (postToTwitter env_rate_limited gone_row 0 gone_bot))) = {}"
proof -
  have l: "\<forall>n. \<exists>h. lookup_response env_rate_limited n = LookupOk h"
    by (simp add: env_rate_limited_def)
  have t: "\<forall>n. \<exists>err. tweet_response env_rate_limited n = TweetErr err \<and>
             (is_rate_limit_error err \<and> \<not> target_gone err)"
    using rate_limit_error_class by (simp add: env_rate_limited_def)
  have a: "answer gone_row = Some ''Hello''" by (simp add: gone_row_def)
  from rate_limit_retries_exhausted[OF l t a hello_clean, of gone_bot] a hello_clean
    rate_limit_error_class
  show ?thesis
    by (auto simp: gone_bot_def new_bot_def backoff_delays_def config_def)
qed

section \<open>Poll cycle: the watermark\<close>

lemma ambient_lastCheckTime: "ambient lastCheckTime"
  by (simp add: ambient_def log_msg_def sleep_def upd_stats_def)

lemma watermark_basic [simp]:
  "lastCheckTime (sleep site ms s) = lastCheckTime s"
  "lastCheckTime (updateRateLimitInfo ep h s) = lastCheckTime s"
  "lastCheckTime (waitForRateLimit w s) = lastCheckTime s"
  "lastCheckTime (snd (checkRateLimit ep s)) = lastCheckTime s"
  "lastCheckTime (rateLimitedDelay s) = lastCheckTime s"
     apply (simp add: sleep_def)
    apply (rule ambient_update[OF ambient_lastCheckTime])
   apply (rule ambient_waitFor[OF ambient_lastCheckTime])
  apply (rule ambient_check[OF ambient_lastCheckTime])
  apply (simp add: rateLimitedDelay_def Let_def sleep_def)
  done

lemma saveProcessedId_watermark [simp]:
  "lastCheckTime (saveProcessedId e rid p r st c poi s) = lastCheckTime s"
  by (cases "store_reachable e s") (simp_all add: saveProcessedId_up saveProcessedId_down)

lemma getNewRecords_watermark:
  "lastCheckTime (snd (getNewRecords e s)) = lastCheckTime s"
proof (cases "store_reachable e s")
  case True
  let ?s = "log_msg ''DEBUG'' ''Executing database query'' s"
  have "store_reachable e ?s" using True by simp
  from executeQuery_up[OF this, of "''Main''" select_new_answers]
  obtain s0 where ex: "executeQuery e ''Main'' select_new_answers ?s = run_query select_new_answers s0"
    and "lastCheckTime s0 = lastCheckTime ?s"
    by blast
  then show ?thesis
    by (simp add: getNewRecords_def run_query_def select_new_answers_def Let_def)
next
  case False
  then show ?thesis
    by (simp add: getNewRecords_def executeQuery_down failed_attempt_def)
qed

lemma attempt_post_watermark:
  "lastCheckTime (snd (attempt_post e r s)) = lastCheckTime s"
proof -
  obtain chk s1 where cr: "checkRateLimit ''tweets'' s = (chk, s1)"
    by (cases "checkRateLimit ''tweets'' s")
  then have "lastCheckTime s1 = lastCheckTime s"
    using watermark_basic(4)[of "''tweets''" s] by simp
  then show ?thesis
    by (simp add: attempt_post_def cr Let_def split: option.splits tweet_result.splits)
qed

lemma post_failed_watermark [simp]:
  "lastCheckTime (post_failed e r err s) = lastCheckTime s"
  by (simp add: post_failed_def Let_def)

lemma postToTwitter_watermark:
  "postToTwitter e r k s = Some (res, s') \<Longrightarrow> lastCheckTime s' = lastCheckTime s"
proof (induction e r k s arbitrary: res s' rule: postToTwitter.induct)
  case (1 e r k s)
  let ?s0 = "log_msg ''DEBUG'' ''Validating original tweet exists'' s"
  from "1.prems" obtain b s1 where v: "validateTweet e (tweet_id r) ?s0 = Some (b, s1)"
    by (subst (asm) postToTwitter.simps) (auto split: option.splits)
  have l1: "lastCheckTime s1 = lastCheckTime s"
    using ambient_validateTweet[OF ambient_lastCheckTime v] by simp
  show ?case
  proof (cases b)
    case False
    with "1.prems" v l1 show ?thesis
      by (subst (asm) postToTwitter.simps) auto
  next
    case True
    obtain x s2 where ap: "attempt_post e r s1 = (x, s2)" by (cases "attempt_post e r s1")
    have l2: "lastCheckTime s2 = lastCheckTime s1"
      using attempt_post_watermark[of e r s1] ap by simp
    show ?thesis
    proof (cases x)
      case (Inr y)
      with "1.prems" v True ap l1 l2 show ?thesis
        by (subst (asm) postToTwitter.simps) auto
    next
      case (Inl err)
      define s3 where "s3 = (case err_headers err of None \<Rightarrow> s2
                             | Some h \<Rightarrow> updateRateLimitInfo ''tweets'' (Some h) s2)"
      have l3: "lastCheckTime s3 = lastCheckTime s2"
        by (simp add: s3_def split: option.splits)
      show ?thesis
      proof (cases "is_rate_limit_error err \<and> k < maxRetries config")
        case False
        with "1.prems" v True ap Inl l1 l2 l3[unfolded s3_def] show ?thesis
          by (subst (asm) postToTwitter.simps) (auto simp: Let_def split: if_splits)
      next
        case rec: True
        define s4 where "s4 = log_msg ''WARN'' ''Rate limit hit during tweet posting'' s3"
        have step: "postToTwitter e r k s =
            postToTwitter e r (k + 1)
              (sleep ''backoff'' (backoff_delay k)
                 (log_msg ''INFO'' ''Retrying after rate limit backoff'' s4))"
          using rec by (subst postToTwitter.simps) (simp add: v True ap Inl Let_def s3_def s4_def)
        have "lastCheckTime s' =
            lastCheckTime (sleep ''backoff'' (backoff_delay k)
                 (log_msg ''INFO'' ''Retrying after rate limit backoff'' s4))"
          using "1.IH"[OF v refl _ ap[symmetric] Inl s3_def _ s4_def, of res s'] rec True
            "1.prems"[unfolded step]
          by simp
        then show ?thesis using l1 l2 l3 by (simp add: s4_def)
      qed
    qed
  qed
qed

lemma process_records_watermark:
  "process_records e n rs s = Some s' \<Longrightarrow> lastCheckTime s' = lastCheckTime s"
proof (induction rs arbitrary: s s')
  case Nil
  then show ?case by simp
next
  case (Cons r rs)
  let ?s2 = "log_msg ''INFO''
      (''Processing record '' @
       show_int (totalProcessed (stats (upd_stats (\<lambda>st. st\<lparr>totalProcessed := totalProcessed st + 1\<rparr>) s))) @
       ''/'' @ show_nat n)
      (upd_stats (\<lambda>st. st\<lparr>totalProcessed := totalProcessed st + 1\<rparr>) s)"
  from Cons.prems obtain res s3 where p: "postToTwitter e r 0 ?s2 = Some (res, s3)"
    by (auto simp: Let_def split: option.splits)
  have l3: "lastCheckTime s3 = lastCheckTime s"
    using postToTwitter_watermark[OF p] by simp
  from Cons.prems p obtain s4 where s4: "process_records e n rs s4 = Some s'"
    and l4: "lastCheckTime s4 = lastCheckTime s3"
    by (auto simp: Let_def split: option.splits if_splits)
  from Cons.IH[OF s4] l4 l3 show ?case by simp
qed

text \<open>
  Claim C6, as amended.  A poll cycle that finds no candidate leaves \<open>lastCheckTime\<close> as it
  was.  A cycle with candidates sets \<open>lastCheckTime\<close> to the clock read after the last
  candidate has been handled, which is the time at the end of the cycle; neither the fetch
  nor the handling of the candidates changes \<open>lastCheckTime\<close> before that.
\<close>

theorem watermark_set_at_cycle_end:
  assumes "processNewRecords e s = Some s'"
  shows "(fst (getNewRecords e s) = [] \<longrightarrow> lastCheckTime s' = lastCheckTime s) \<and>
         (fst (getNewRecords e s) \<noteq> [] \<longrightarrow> lastCheckTime s' = clock s') \<and>
         lastCheckTime (snd (getNewRecords e s)) = lastCheckTime s \<and>
         (\<forall>n rs s1 s2. process_records e n rs s1 = Some s2 \<longrightarrow> lastCheckTime s2 = lastCheckTime s1)"
proof -
  obtain records s1 where g: "getNewRecords e s = (records, s1)" by (cases "getNewRecords e s")
  have w1: "lastCheckTime s1 = lastCheckTime s"
    using getNewRecords_watermark[of e s] g by simp
  have a: "records = [] \<Longrightarrow> lastCheckTime s' = lastCheckTime s"
    using assms w1 by (auto simp: processNewRecords_def g log_msg_def)
  have b: "records \<noteq> [] \<Longrightarrow> lastCheckTime s' = clock s'"
    using assms
    by (auto simp: processNewRecords_def g Let_def logCurrentStats_def log_msg_def
        split: option.splits)
  show ?thesis
    using a b g getNewRecords_watermark[of e s] process_records_watermark by auto
qed

lemma hello_clean_eq: "cleanAnswerForTwitter ''Hello'' = ''Hello''"
  by code_simp

lemma one_post_cycle:
  "map_option lastCheckTime (processNewRecords env_ok gone_bot) = Some 100002000"
  apply (simp add: processNewRecords_def getNewRecords_def executeQuery_unroll run_query_def
      select_new_answers_def env_ok_def gone_bot_def new_bot_def gone_row_def isValidRecord_def
      blank_def trim_def is_ws_def Let_def log_msg_def upd_stats_def postToTwitter.simps
      validateTweet.simps checkRateLimit_def empty_rate_limit_def truthy_def
      updateRateLimitInfo_def attempt_post_def hello_clean_eq saveProcessedId_def
      upsert_query_def rateLimitedDelay_def config_def sleep_def logCurrentStats_def)
  done

lemma gone_bot_candidates: "fst (getNewRecords env_ok gone_bot) = [gone_row]"
proof -
  have "fst (select_new_answers gone_bot) = [gone_row]"
    by (simp add: select_new_answers_def gone_bot_def new_bot_def gone_row_def)
  moreover have "isValidRecord gone_row"
    by (simp add: isValidRecord_def blank_def gone_row_def trim_def is_ws_def)
  moreover have "id_fld gone_row \<notin> processedIds gone_bot"
    by (simp add: gone_bot_def new_bot_def)
  ultimately show ?thesis by (simp add: getNewRecords_up)
qed

lemma empty_cycle:
  "map_option lastCheckTime (processNewRecords env_ok (new_bot 100000000 [] [])) = Some 56800000"
  by (simp add: processNewRecords_def getNewRecords_def executeQuery_unroll run_query_def
      select_new_answers_def env_ok_def new_bot_def Let_def log_msg_def)

text \<open>
  Claim C6 as stated fails: a cycle that starts at 100000000 and posts one reply ends with
  \<open>lastCheckTime = 100002000\<close>, the time after the two-second delay that follows the post,
  not the time at which the cycle started.
\<close>

theorem watermark_counterexample:
  "clock gone_bot = 100000000 \<and>
   fst (getNewRecords env_ok gone_bot) = [gone_row] \<and>
   map_option lastCheckTime (processNewRecords env_ok gone_bot) = Some 100002000 \<and>
   lastCheckTime (new_bot 100000000 [] []) = 56800000 \<and>
   clock (new_bot 100000000 [] []) = 100000000 \<and>
   map_option lastCheckTime (processNewRecords env_ok (new_bot 100000000 [] [])) = Some 56800000"
  using one_post_cycle gone_bot_candidates empty_cycle
  by (simp add: gone_bot_def new_bot_def)

theorem watermark_witness:
  "processNewRecords env_ok gone_bot \<noteq> None \<and>
   fst (getNewRecords env_ok gone_bot) \<noteq> [] \<and>
   map_option lastCheckTime (processNewRecords env_ok gone_bot) =
     map_option clock (processNewRecords env_ok gone_bot)"
proof -
  obtain s' where s': "processNewRecords env_ok gone_bot = Some s'"
    using one_post_cycle by blast
  from watermark_set_at_cycle_end[OF s'] show ?thesis
    by (simp add: s' gone_bot_candidates)
qed

section \<open>The poll after a cycle\<close>

lemmas cycle_eval =
  processNewRecords_def getNewRecords_def executeQuery_unroll run_query_def
  select_new_answers_def new_bot_def isValidRecord_def
  blank_def trim_def is_ws_def Let_def log_msg_def upd_stats_def postToTwitter.simps
  validateTweet.simps checkRateLimit_def empty_rate_limit_def truthy_def
  updateRateLimitInfo_def attempt_post_def saveProcessedId_def
  upsert_query_def rateLimitedDelay_def config_def sleep_def logCurrentStats_def
  post_failed_def backoff_delay_def failed_attempt_def

lemma rate_limit_error_headers: "err_headers rate_limit_error = None"
  by (simp add: rate_limit_error_def)

lemma rate_limited_cycle:
  "map_option (\<lambda>s. (lastCheckTime s, twitter_answers s, processedIds s, processed_records s))
     (processNewRecords env_rate_limited gone_bot) = Some (100035000, [gone_row], {}, [])"
  using rate_limit_error_class
  by (simp add: cycle_eval env_rate_limited_def gone_bot_def gone_row_def hello_clean_eq
      rate_limit_error_headers)

lemma papers_cycle:
  "map_option (\<lambda>s. (lastCheckTime s, twitter_answers s, processedIds s, processed_records s))
     (processNewRecords env_ok papers_bot) = Some (100000000, [papers_row], {}, [])"
  by (simp add: cycle_eval env_ok_def papers_bot_def papers_row_def papers_clean)

lemma write_fails_cycle:
  "map_option (\<lambda>s. (lastCheckTime s, twitter_answers s, processedIds s, processed_records s,
                     db_calls s, tweets_sent s))
     (processNewRecords env_write_fails gone_bot) =
   Some (100005000, [gone_row], {}, [], 4, [(''Hello'', Some ''404404'')])"
  by (simp add: cycle_eval env_write_fails_def gone_bot_def gone_row_def hello_clean_eq)

lemma next_poll_empty:
  assumes "store_reachable e s'"
    and "filter (\<lambda>r. created_at r > lastCheckTime s') (twitter_answers s') = []"
  shows "fst (getNewRecords e (sleep site ms s')) = []"
proof -
  have "store_reachable e (sleep site ms s')"
    using assms(1) by (simp add: store_reachable_def sleep_def)
  moreover have "fst (select_new_answers (sleep site ms s')) = []"
    using assms(2) by (simp add: select_new_answers_def sleep_def)
  ultimately show ?thesis by (simp add: getNewRecords_up)
qed

lemma store_reachable_env_rate_limited [simp]: "store_reachable env_rate_limited s"
  by (simp add: store_reachable_def env_rate_limited_def)

lemma rate_limited_candidates: "fst (getNewRecords env_rate_limited gone_bot) = [gone_row]"
proof -
  have "fst (select_new_answers gone_bot) = [gone_row]"
    by (simp add: select_new_answers_def gone_bot_def new_bot_def gone_row_def)
  moreover have "isValidRecord gone_row"
    by (simp add: isValidRecord_def blank_def gone_row_def trim_def is_ws_def)
  moreover have "id_fld gone_row \<notin> processedIds gone_bot"
    by (simp add: gone_bot_def new_bot_def)
  ultimately show ?thesis by (simp add: getNewRecords_up)
qed

lemma rate_limit_gone_error_class:
  "is_rate_limit_error rate_limit_gone_error \<and> target_gone rate_limit_gone_error"
  by code_simp

lemma rate_limit_gone_error_headers: "err_headers rate_limit_gone_error = None"
  by (simp add: rate_limit_gone_error_def)

lemma rate_limited_gone_run:
  "map_option (\<lambda>(res, s). (res, map status (processed_records s), processedIds s,
                            length (tweets_sent s)))
     (postToTwitter env_rate_limited_gone gone_row 0 gone_bot) =
   Some (None, [''skipped_tweet_deleted''], {IdStr ''5''}, 4)"
  using rate_limit_gone_error_class
  by (simp add: cycle_eval env_rate_limited_gone_def gone_bot_def gone_row_def hello_clean_eq
      rate_limit_gone_error_headers upsert_row_def id_text_def)

text \<open>
  Claim C5 as stated fails twice.  A candidate whose every tweet call is answered by 429 is
  given up after the three retries and is in neither the ledger nor \<open>processedIds\<close>, yet the
  cycle ends with \<open>lastCheckTime\<close> past its \<open>created_at\<close>, and the next poll, one interval
  later, does not return it.  And when the 429 carries the words \<open>not found\<close> in its message,
  the give-up writes a ledger row with status \<open>skipped_tweet_deleted\<close>.
\<close>

theorem rate_limit_retries_counterexample:
  "fst (getNewRecords env_rate_limited gone_bot) = [gone_row] \<and>
   tweet_response env_rate_limited 0 = TweetErr rate_limit_error \<and>
   is_rate_limit_error rate_limit_error \<and>
   processNewRecords env_rate_limited gone_bot \<noteq> None \<and>
   twitter_answers (after_cycle env_rate_limited gone_bot) = [gone_row] \<and>
   id_fld gone_row \<notin> processedIds (after_cycle env_rate_limited gone_bot) \<and>
   processed_records (after_cycle env_rate_limited gone_bot) = [] \<and>
   fst (getNewRecords env_rate_limited (after_cycle env_rate_limited gone_bot)) = [] \<and>
   tweet_response env_rate_limited_gone 0 = TweetErr rate_limit_gone_error \<and>
   is_rate_limit_error rate_limit_gone_error \<and>
   postToTwitter env_rate_limited_gone gone_row 0 gone_bot \<noteq> None \<and>
   map status (processed_records (snd (the (postToTwitter env_rate_limited_gone gone_row 0 gone_bot))))
     = [''skipped_tweet_deleted'']"
proof -
  obtain s' where s': "processNewRecords env_rate_limited gone_bot = Some s'"
    and f: "lastCheckTime s' = 100035000" "twitter_answers s' = [gone_row]"
      "processedIds s' = {}" "processed_records s' = []"
    using rate_limited_cycle by auto
  have n: "fst (getNewRecords env_rate_limited (after_cycle env_rate_limited gone_bot)) = []"
    unfolding after_cycle_def s'
    by (simp add: next_poll_empty f gone_row_def)
  obtain res t where t: "postToTwitter env_rate_limited_gone gone_row 0 gone_bot = Some (res, t)"
    and g: "map status (processed_records t) = [''skipped_tweet_deleted'']"
    using rate_limited_gone_run by auto
  have e: "tweet_response env_rate_limited 0 = TweetErr rate_limit_error"
    "tweet_response env_rate_limited_gone 0 = TweetErr rate_limit_gone_error"
    by (simp_all add: env_rate_limited_def env_rate_limited_gone_def)
  show ?thesis
    using n f g e rate_limit_error_class rate_limit_gone_error_class rate_limited_candidates
    by (simp add: after_cycle_def s' t sleep_def)
qed

lemma papers_candidates: "fst (getNewRecords env_ok papers_bot) = [papers_row]"
proof -
  have "fst (select_new_answers papers_bot) = [papers_row]"
    by (simp add: select_new_answers_def papers_bot_def new_bot_def papers_row_def)
  moreover have "isValidRecord papers_row"
    by (simp add: isValidRecord_def blank_def papers_row_def trim_def is_ws_def)
  moreover have "id_fld papers_row \<notin> processedIds papers_bot"
    by (simp add: papers_bot_def new_bot_def)
  ultimately show ?thesis by (simp add: getNewRecords_up)
qed

text \<open>
  Claim C8 as stated fails: a candidate whose content is only the references header is
  skipped without a ledger row and stays outside \<open>processedIds\<close>, yet the cycle ends with
  \<open>lastCheckTime\<close> past its \<open>created_at\<close>, and the next poll, one interval later, does not
  return it although it is still in the source table.
\<close>

theorem empty_after_cleaning_counterexample:
  "fst (getNewRecords env_ok papers_bot) = [papers_row] \<and>
   answer papers_row = Some ''Science papers:'' \<and>
   cleanAnswerForTwitter ''Science papers:'' = [] \<and>
   processNewRecords env_ok papers_bot \<noteq> None \<and>
   twitter_answers (after_cycle env_ok papers_bot) = [papers_row] \<and>
   id_fld papers_row \<notin> processedIds (after_cycle env_ok papers_bot) \<and>
   processed_records (after_cycle env_ok papers_bot) = [] \<and>
   fst (getNewRecords env_ok (after_cycle env_ok papers_bot)) = []"
proof -
  obtain s' where s': "processNewRecords env_ok papers_bot = Some s'"
    and f: "lastCheckTime s' = 100000000" "twitter_answers s' = [papers_row]"
      "processedIds s' = {}" "processed_records s' = []"
    using papers_cycle by auto
  have n: "fst (getNewRecords env_ok (after_cycle env_ok papers_bot)) = []"
    unfolding after_cycle_def s'
    by (simp add: next_poll_empty f papers_row_def)
  have a: "answer papers_row = Some ''Science papers:''" by (simp add: papers_row_def)
  show ?thesis
    using n f a papers_candidates papers_clean
    by (simp add: after_cycle_def s' sleep_def)
qed

lemma write_fails_candidates: "fst (getNewRecords env_write_fails gone_bot) = [gone_row]"
proof -
  have "fst (select_new_answers gone_bot) = [gone_row]"
    by (simp add: select_new_answers_def gone_bot_def new_bot_def gone_row_def)
  moreover have "isValidRecord gone_row"
    by (simp add: isValidRecord_def blank_def gone_row_def trim_def is_ws_def)
  moreover have "id_fld gone_row \<notin> processedIds gone_bot"
    by (simp add: gone_bot_def new_bot_def)
  moreover have "store_reachable env_write_fails gone_bot"
    by (simp add: store_reachable_def env_write_fails_def gone_bot_def new_bot_def)
  ultimately show ?thesis by (simp add: getNewRecords_up)
qed

text \<open>
  Claim C9 as stated fails: the reply is posted, the three attempts of the ledger write
  fail, the id stays outside \<open>processedIds\<close> and the ledger, yet the cycle ends with
  \<open>lastCheckTime\<close> past the row's \<open>created_at\<close>, and the next poll, with the store back, does
  not return the row.
\<close>

theorem saveProcessedId_failure_counterexample:
  "fst (getNewRecords env_write_fails gone_bot) = [gone_row] \<and>
   query_ok env_write_fails 1 = False \<and> query_ok env_write_fails 2 = False \<and>
   query_ok env_write_fails 3 = False \<and>
   processNewRecords env_write_fails gone_bot \<noteq> None \<and>
   tweets_sent (after_cycle env_write_fails gone_bot) = [(''Hello'', Some ''404404'')] \<and>
   twitter_answers (after_cycle env_write_fails gone_bot) = [gone_row] \<and>
   id_fld gone_row \<notin> processedIds (after_cycle env_write_fails gone_bot) \<and>
   processed_records (after_cycle env_write_fails gone_bot) = [] \<and>
   store_reachable env_write_fails (after_cycle env_write_fails gone_bot) \<and>
   fst (getNewRecords env_write_fails (after_cycle env_write_fails gone_bot)) = []"
proof -
  obtain s' where s': "processNewRecords env_write_fails gone_bot = Some s'"
    and f: "lastCheckTime s' = 100005000" "twitter_answers s' = [gone_row]"
      "processedIds s' = {}" "processed_records s' = []" "db_calls s' = 4"
      "tweets_sent s' = [(''Hello'', Some ''404404'')]"
    using write_fails_cycle by auto
  have r: "store_reachable env_write_fails s'"
    by (simp add: store_reachable_def env_write_fails_def f)
  have n: "fst (getNewRecords env_write_fails (after_cycle env_write_fails gone_bot)) = []"
    unfolding after_cycle_def s'
    by (simp add: next_poll_empty r f gone_row_def)
  have r': "store_reachable env_write_fails (after_cycle env_write_fails gone_bot)"
    using r by (simp add: after_cycle_def s' store_reachable_def sleep_def)
  have e: "query_ok env_write_fails 1 = False" "query_ok env_write_fails 2 = False"
    "query_ok env_write_fails 3 = False"
    by (simp_all add: env_write_fails_def)
  show ?thesis
    using n f r' e write_fails_candidates
    by (simp add: after_cycle_def s' sleep_def)
qed

end
